theory Spec2Isabelle
  imports Complex_Main "HOL-Library.AList"
begin

section \<open>Python values, exceptions and loops\<close>

text \<open>
  The development embeds \<^verbatim>\<open>axelrod/result_set.py\<close> (class \<^verbatim>\<open>ResultSet\<close>).
  Python lists are HOL lists, a \<^verbatim>\<open>dict\<close> is an association list in iteration
  order (\<open>AList.update\<close> is the assignment \<^verbatim>\<open>d[k] = v\<close>), Python integers are
  \<open>int\<close>, and Python floats are idealised as \<open>real\<close>: rounding and overflow of
  floating-point numbers are not modelled. Every exception the code can raise is a
  value \<open>Inl e\<close> of the result type.
\<close>

datatype error =
    IndexError
  | KeyError
  | TypeError
  | AttributeError
  | ZeroDivisionError
  | OtherException string

text \<open>Sequencing of two computations: the second runs only if the first did not raise.\<close>

definition and_then :: "error + 'a \<Rightarrow> ('a \<Rightarrow> error + 'b) \<Rightarrow> error + 'b" where
  "and_then m f = (case m of Inl e \<Rightarrow> Inl e | Inr x \<Rightarrow> f x)"

text \<open>
  A \<^verbatim>\<open>for x in xs: body\<close> loop over a loop state: the body may raise, which ends
  the loop (and everything around it) with that exception.
\<close>

fun for_each :: "'i list \<Rightarrow> ('i \<Rightarrow> 's \<Rightarrow> error + 's) \<Rightarrow> 's \<Rightarrow> error + 's" where
  "for_each [] body s = Inr s"
| "for_each (x # xs) body s = and_then (body x s) (for_each xs body)"

text \<open>A list comprehension \<^verbatim>\<open>[f(x) for x in xs]\<close> whose element expression may raise.\<close>

fun comprehension :: "('i \<Rightarrow> error + 'a) \<Rightarrow> 'i list \<Rightarrow> error + 'a list" where
  "comprehension f [] = Inr []"
| "comprehension f (x # xs) =
     and_then (f x) (\<lambda>y. and_then (comprehension f xs) (\<lambda>ys. Inr (y # ys)))"

text \<open>Reading \<^verbatim>\<open>m[i][j]\<close> and \<^verbatim>\<open>m[i][j][r]\<close> with non-negative indices.\<close>

definition index2 :: "'a list list \<Rightarrow> nat \<Rightarrow> nat \<Rightarrow> error + 'a" where
  "index2 m i j =
     (if i < length m \<and> j < length (m ! i) then Inr (m ! i ! j) else Inl IndexError)"

definition index3 :: "'a list list list \<Rightarrow> nat \<Rightarrow> nat \<Rightarrow> nat \<Rightarrow> error + 'a" where
  "index3 m i j r =
     (if i < length m \<and> j < length (m ! i) \<and> r < length (m ! i ! j)
      then Inr (m ! i ! j ! r) else Inl IndexError)"

text \<open>The assignments \<^verbatim>\<open>m[i][j] = v\<close> and \<^verbatim>\<open>m[i][j][r] = v\<close>: the target must exist.\<close>

definition assign2 :: "'a list list \<Rightarrow> nat \<Rightarrow> nat \<Rightarrow> 'a \<Rightarrow> error + 'a list list" where
  "assign2 m i j v =
     (if i < length m \<and> j < length (m ! i)
      then Inr (m[i := (m ! i)[j := v]])
      else Inl IndexError)"

definition assign3 :: "'a list list list \<Rightarrow> nat \<Rightarrow> nat \<Rightarrow> nat \<Rightarrow> 'a \<Rightarrow> error + 'a list list list" where
  "assign3 m i j r v =
     (if i < length m \<and> j < length (m ! i) \<and> r < length (m ! i ! j)
      then Inr (m[i := (m ! i)[j := (m ! i ! j)[r := v]]])
      else Inl IndexError)"

text \<open>\<^verbatim>\<open>k in d\<close> and \<^verbatim>\<open>d[k]\<close> on a dictionary.\<close>

definition contains_key :: "('k \<times> 'v) list \<Rightarrow> 'k \<Rightarrow> bool" where
  "contains_key d k = (map_of d k \<noteq> None)"

definition lookup :: "('k \<times> 'v) list \<Rightarrow> 'k \<Rightarrow> error + 'v" where
  "lookup d k = (case map_of d k of None \<Rightarrow> Inl KeyError | Some v \<Rightarrow> Inr v)"

text \<open>
  An attribute of an object: never assigned (reading it raises \<^verbatim>\<open>AttributeError\<close>),
  assigned \<^verbatim>\<open>None\<close>, or assigned a value.
\<close>

datatype 'a attr = Unset | PyNone | Val 'a

definition getattr :: "'a attr \<Rightarrow> error + 'a option" where
  "getattr a = (case a of Unset \<Rightarrow> Inl AttributeError | PyNone \<Rightarrow> Inr None | Val v \<Rightarrow> Inr (Some v))"

text \<open>
  An entry of a numpy array of floats: \<^verbatim>\<open>numpy.mean\<close> of an empty list is
  \<^verbatim>\<open>nan\<close> (with a warning, not an exception).
\<close>

datatype npfloat = NaN | Num real

definition mean :: "real list \<Rightarrow> npfloat" where
  "mean xs = (if xs = [] then NaN else Num (sum_list xs / real (length xs)))"

section \<open>The state of a \<^verbatim>\<open>ResultSet\<close>\<close>

type_synonym 'a tensor = "'a list list list"
type_synonym 'a channels = "(string \<times> 'a tensor) list"

text \<open>
  The attributes assigned first in \<^verbatim>\<open>__init__\<close> (lines 32 to 36); the methods
  \<^verbatim>\<open>_results\<close>, \<^verbatim>\<open>_score_diffs\<close> and \<^verbatim>\<open>_payoff_diffs_matrix\<close> read
  only these. A player is represented by its name.
\<close>

record tournament =
  players :: "string list"
  nplayers :: nat
  turns :: int
  repetitions :: int
  outcome :: "int channels"

text \<open>The derived attributes, in the order of \<^verbatim>\<open>__init__\<close>.\<close>

record result_set = tournament +
  results :: "int channels"
  scores :: "real list list attr"
  normalised_scores :: "real list list attr"
  ranking :: "nat list attr"
  ranked_names :: "string list attr"
  payoff_matrix :: "real list list attr"
  wins :: "real list list attr"
  cooperation :: "real list list attr"
  normalised_cooperation :: "real list list attr"
  vengeful_cooperation :: "real list list attr"
  cooperating_rating :: "real list attr"
  good_partner_matrix :: "real list list attr"
  good_partner_rating :: "real list attr"
  eigenjesus_rating :: "real list attr"
  eigenmoses_rating :: "real list attr"
  payoff_stddevs :: "real list list attr"
  payoff_diffs_matrix :: "npfloat list list attr"
  score_diffs :: "real list list attr"

section \<open>The reshaper: \<^verbatim>\<open>ResultSet._results\<close>\<close>

text \<open>
  \<^verbatim>\<open>_null_results_matrix\<close>: \<^verbatim>\<open>[[[0 for r in replist] for j in plist] for i in plist]\<close>
  with \<^verbatim>\<open>plist = list(range(self.nplayers))\<close> and
  \<^verbatim>\<open>replist = list(range(self.repetitions))\<close>.
  Each access builds fresh lists, so no two cells are aliased.
\<close>

definition null_results_matrix :: "'m tournament_scheme \<Rightarrow> ('a::zero) tensor" where
  "null_results_matrix self =
     (let plist = [0..<nplayers self]; replist = [0..<nat (repetitions self)]
      in map (\<lambda>i. map (\<lambda>j. map (\<lambda>r. 0) replist) plist) plist)"

text \<open>
  The two inner loops of \<^verbatim>\<open>_results\<close>, for one repetition:
  \<^verbatim>\<open>for i in range(len(self.players)): for j in range(len(self.players)):
      matrix[i][j][index] = result_matrix[i][j]\<close>.
  The right-hand side is read first, then the target is written.
\<close>

definition copy_repetition ::
  "'m tournament_scheme \<Rightarrow> nat \<Rightarrow> 'a list list \<Rightarrow> 'a tensor \<Rightarrow> error + 'a tensor" where
  "copy_repetition self index result_matrix =
     for_each [0..<length (players self)] (\<lambda>i.
       for_each [0..<length (players self)] (\<lambda>j matrix.
         and_then (index2 result_matrix i j) (\<lambda>v. assign3 matrix i j index v)))"

text \<open>
  The body of the loop over \<^verbatim>\<open>outcome.items()\<close>. The loop state of the inner
  \<^verbatim>\<open>enumerate\<close> loop is the matrix together with the dictionary, because
  \<^verbatim>\<open>results[result_type] = matrix\<close> stands inside that loop: it runs once per
  repetition matrix, and never for an empty \<^verbatim>\<open>result_list\<close>.
\<close>

definition reshape_channel ::
  "'m tournament_scheme \<Rightarrow> string \<Rightarrow> ('a::zero) tensor \<Rightarrow> 'a channels \<Rightarrow> error + 'a channels" where
  "reshape_channel self result_type result_list res =
     and_then
       (for_each (enumerate 0 result_list)
          (\<lambda>(index, result_matrix) (matrix, res).
             and_then (copy_repetition self index result_matrix matrix)
               (\<lambda>matrix. Inr (matrix, AList.update result_type matrix res)))
          (null_results_matrix self, res))
       (\<lambda>(matrix, res). Inr res)"

definition ResultSet_results :: "'m tournament_scheme \<Rightarrow> ('a::zero) channels \<Rightarrow> error + 'a channels" where
  "ResultSet_results self outcome' =
     for_each outcome'
       (\<lambda>(result_type, result_list). reshape_channel self result_type result_list)
       []"

text \<open>
  Shapes, for stating what the reshaper does. \<open>shape3 a b c m\<close>: the tensor \<open>m\<close> has
  \<open>a\<close> rows of \<open>b\<close> cells of \<open>c\<close> values each. \<open>covers n result_matrix\<close>:
  \<^verbatim>\<open>result_matrix[i][j]\<close> exists for all \<open>i, j < n\<close>. \<open>accepted self result_list\<close>:
  with at least one player, there are at most \<^verbatim>\<open>repetitions\<close> matrices and each
  covers the players. \<open>canonical self result_list\<close>: the player-major tensor holding
  \<^verbatim>\<open>result_list[r][i][j]\<close> at \<open>[i][j][r]\<close>, and 0 at the repetitions
  \<open>result_list\<close> does not have.
\<close>

definition shape3 :: "nat \<Rightarrow> nat \<Rightarrow> nat \<Rightarrow> 'a tensor \<Rightarrow> bool" where
  "shape3 a b c m =
     (length m = a \<and> list_all (\<lambda>row. length row = b \<and> list_all (\<lambda>cell. length cell = c) row) m)"

definition covers :: "nat \<Rightarrow> 'a list list \<Rightarrow> bool" where
  "covers n result_matrix =
     (n \<le> length result_matrix \<and> list_all (\<lambda>row. n \<le> length row) (take n result_matrix))"

definition accepted :: "'m tournament_scheme \<Rightarrow> 'a tensor \<Rightarrow> bool" where
  "accepted self result_list =
     (length (players self) = 0 \<or>
      (length result_list \<le> nat (repetitions self) \<and>
       list_all (covers (length (players self))) result_list))"

definition canonical :: "'m tournament_scheme \<Rightarrow> ('a::zero) tensor \<Rightarrow> 'a tensor" where
  "canonical self result_list =
     map (\<lambda>i. map (\<lambda>j. map (\<lambda>r. if r < length result_list then result_list ! r ! i ! j else 0)
                          [0..<nat (repetitions self)])
                [0..<length (players self)])
         [0..<length (players self)]"

text \<open>
  The dictionary \<^verbatim>\<open>_results\<close> returns when no channel raises: every channel with at
  least one repetition matrix is assigned its canonical tensor, in iteration order.
\<close>

fun reshaped :: "'m tournament_scheme \<Rightarrow> ('a::zero) channels \<Rightarrow> 'a channels \<Rightarrow> 'a channels" where
  "reshaped self [] res = res"
| "reshaped self ((result_type, result_list) # rest) res =
     reshaped self rest
       (if result_list = [] then res
        else AList.update result_type (canonical self result_list) res)"

text \<open>
  A valid outcome bundle for a tournament: a dictionary (distinct keys) whose tensors all
  have shape \<^verbatim>\<open>[repetitions][N][N]\<close>.
\<close>

definition valid_outcome :: "'m tournament_scheme \<Rightarrow> 'a channels \<Rightarrow> bool" where
  "valid_outcome self outcome' =
     (distinct (map fst outcome') \<and>
      list_all (\<lambda>channel. shape3 (nat (repetitions self)) (length (players self))
                            (length (players self)) (snd channel)) outcome')"

section \<open>Payoff differences: \<^verbatim>\<open>_score_diffs\<close> and \<^verbatim>\<open>_payoff_diffs_matrix\<close>\<close>

text \<open>
  \<^verbatim>\<open>(payoff[player][opponent][repetition] - payoff[opponent][player][repetition])
     / float(self.turns)\<close>: both reads come first, then the division, which raises
  \<^verbatim>\<open>ZeroDivisionError\<close> when \<^verbatim>\<open>turns\<close> is 0.
\<close>

definition payoff_diff :: "'m tournament_scheme \<Rightarrow> int tensor \<Rightarrow> nat \<Rightarrow> nat \<Rightarrow> nat \<Rightarrow> error + real" where
  "payoff_diff self payoff player opponent repetition =
     and_then (index3 payoff player opponent repetition) (\<lambda>a.
     and_then (index3 payoff opponent player repetition) (\<lambda>b.
       if turns self = 0 then Inl ZeroDivisionError
       else Inr (real_of_int (a - b) / real_of_int (turns self))))"

text \<open>\<^verbatim>\<open>diffs[player].append(diff)\<close>\<close>

definition append_to_row :: "'a list list \<Rightarrow> nat \<Rightarrow> 'a \<Rightarrow> error + 'a list list" where
  "append_to_row rows player diff =
     (if player < length rows then Inr (rows[player := rows ! player @ [diff]])
      else Inl IndexError)"

definition ResultSet_score_diffs :: "'m tournament_scheme \<Rightarrow> int tensor \<Rightarrow> error + real list list" where
  "ResultSet_score_diffs self payoff =
     for_each [0..<nplayers self] (\<lambda>player.
       for_each [0..<nplayers self] (\<lambda>opponent.
         for_each [0..<nat (repetitions self)] (\<lambda>repetition diffs.
           and_then (payoff_diff self payoff player opponent repetition) (\<lambda>diff.
             append_to_row diffs player diff))))
       (map (\<lambda>p. []) [0..<nplayers self])"

text \<open>
  The innermost loop of \<^verbatim>\<open>_payoff_diffs_matrix\<close>, which collects the differences
  of one pair in a fresh list \<^verbatim>\<open>diffs\<close>.
\<close>

definition pair_diffs :: "'m tournament_scheme \<Rightarrow> int tensor \<Rightarrow> nat \<Rightarrow> nat \<Rightarrow> error + real list" where
  "pair_diffs self payoff player opponent =
     for_each [0..<nat (repetitions self)] (\<lambda>repetition diffs.
       and_then (payoff_diff self payoff player opponent repetition) (\<lambda>diff.
         Inr (diffs @ [diff])))
       []"

definition ResultSet_payoff_diffs_matrix ::
  "'m tournament_scheme \<Rightarrow> int tensor \<Rightarrow> error + npfloat list list" where
  "ResultSet_payoff_diffs_matrix self payoff =
     for_each [0..<nplayers self] (\<lambda>player.
       for_each [0..<nplayers self] (\<lambda>opponent diffs_matrix.
         and_then (pair_diffs self payoff player opponent) (\<lambda>diffs.
           assign2 diffs_matrix player opponent (mean diffs))))
       (map (\<lambda>i. map (\<lambda>j. Num 0) [0..<nplayers self]) [0..<nplayers self])"

section \<open>The constructor\<close>

text \<open>
  The modules \<^verbatim>\<open>axelrod.payoff\<close> (\<^verbatim>\<open>ap\<close>) and \<^verbatim>\<open>axelrod.cooperation\<close>
  (\<^verbatim>\<open>ac\<close>) are not part of the embedded file. The constructor takes their functions
  as parameters: each is any function of its arguments that returns a value or raises,
  and does not change its arguments.
\<close>

record payoff_module =
  ap_scores :: "int tensor \<Rightarrow> nat \<Rightarrow> int \<Rightarrow> error + real list list"
  ap_normalised_scores :: "real list list \<Rightarrow> nat \<Rightarrow> int \<Rightarrow> error + real list list"
  ap_ranking :: "real list list \<Rightarrow> nat \<Rightarrow> error + nat list"
  ap_ranked_names :: "string list \<Rightarrow> nat list \<Rightarrow> error + string list"
  ap_normalised_payoff :: "int tensor \<Rightarrow> int \<Rightarrow> int \<Rightarrow> error + (real list list \<times> real list list)"
  ap_wins :: "int tensor \<Rightarrow> nat \<Rightarrow> int \<Rightarrow> error + real list list"

record cooperation_module =
  ac_cooperation_matrix :: "int tensor \<Rightarrow> error + real list list"
  ac_normalised_cooperation :: "real list list \<Rightarrow> int \<Rightarrow> int \<Rightarrow> error + real list list"
  ac_vengeful_cooperation :: "real list list \<Rightarrow> error + real list list"
  ac_cooperating_rating :: "real list list \<Rightarrow> nat \<Rightarrow> int \<Rightarrow> int \<Rightarrow> error + real list"
  ac_good_partner_matrix :: "int tensor \<Rightarrow> nat \<Rightarrow> int \<Rightarrow> error + real list list"
  ac_good_partner_rating :: "real list list \<Rightarrow> nat \<Rightarrow> int \<Rightarrow> error + real list"
  ac_eigenvector :: "real list list \<Rightarrow> error + real list"

text \<open>Lines 32 to 36: the attributes the methods read.\<close>

definition new_tournament :: "string list \<Rightarrow> int \<Rightarrow> int \<Rightarrow> int channels \<Rightarrow> tournament" where
  "new_tournament players' turns' repetitions' outcome' =
     \<lparr>players = players', nplayers = length players', turns = turns',
      repetitions = repetitions', outcome = outcome'\<rparr>"

text \<open>
  Lines 37 to 51: \<^verbatim>\<open>self.results\<close> is set, and fourteen derived attributes are set
  to \<^verbatim>\<open>None\<close>. The attributes \<^verbatim>\<open>payoff_stddevs\<close>, \<^verbatim>\<open>payoff_diffs_matrix\<close> and
  \<^verbatim>\<open>score_diffs\<close> are not assigned here.
\<close>

definition defaults :: "tournament \<Rightarrow> int channels \<Rightarrow> result_set" where
  "defaults t res =
     \<lparr>players = players t, nplayers = nplayers t, turns = turns t,
      repetitions = repetitions t, outcome = outcome t,
      results = res,
      scores = PyNone,
      normalised_scores = PyNone,
      ranking = PyNone,
      ranked_names = PyNone,
      payoff_matrix = PyNone,
      wins = PyNone,
      cooperation = PyNone,
      normalised_cooperation = PyNone,
      vengeful_cooperation = PyNone,
      cooperating_rating = PyNone,
      good_partner_matrix = PyNone,
      good_partner_rating = PyNone,
      eigenjesus_rating = PyNone,
      eigenmoses_rating = PyNone,
      payoff_stddevs = Unset,
      payoff_diffs_matrix = Unset,
      score_diffs = Unset\<rparr>"

text \<open>Lines 54 to 66, the body of \<^verbatim>\<open>if 'payoff' in self.results\<close>.\<close>

definition payoff_reducer :: "payoff_module \<Rightarrow> result_set \<Rightarrow> error + result_set" where
  "payoff_reducer ap self =
     and_then (lookup (results self) ''payoff'') (\<lambda>payoff.
     and_then (ap_scores ap payoff (length (players self)) (repetitions self)) (\<lambda>sc.
     and_then (ap_normalised_scores ap sc (length (players self)) (turns self)) (\<lambda>ns.
     and_then (ap_ranking ap sc (length (players self))) (\<lambda>rk.
     and_then (ap_ranked_names ap (players self) rk) (\<lambda>rn.
     and_then (ap_normalised_payoff ap payoff (turns self) (repetitions self)) (\<lambda>(pm, sd).
     and_then (ap_wins ap payoff (length (players self)) (repetitions self)) (\<lambda>w.
     and_then (ResultSet_payoff_diffs_matrix self payoff) (\<lambda>pdm.
     and_then (ResultSet_score_diffs self payoff) (\<lambda>sdf.
       Inr (self\<lparr>scores := Val sc,
                 normalised_scores := Val ns,
                 ranking := Val rk,
                 ranked_names := Val rn,
                 payoff_matrix := Val pm,
                 payoff_stddevs := Val sd,
                 wins := Val w,
                 payoff_diffs_matrix := Val pdm,
                 score_diffs := Val sdf\<rparr>))))))))))"

text \<open>Lines 69 to 82, the body of \<^verbatim>\<open>if 'cooperation' in self.results and with_morality\<close>.\<close>

definition cooperation_reducer :: "cooperation_module \<Rightarrow> result_set \<Rightarrow> error + result_set" where
  "cooperation_reducer ac self =
     and_then (lookup (results self) ''cooperation'') (\<lambda>coop.
     and_then (ac_cooperation_matrix ac coop) (\<lambda>cm.
     and_then (ac_normalised_cooperation ac cm (turns self) (repetitions self)) (\<lambda>nc.
     and_then (ac_vengeful_cooperation ac nc) (\<lambda>vc.
     and_then (ac_cooperating_rating ac cm (length (players self)) (turns self) (repetitions self)) (\<lambda>cr.
     and_then (ac_good_partner_matrix ac coop (length (players self)) (repetitions self)) (\<lambda>gpm.
     and_then (ac_good_partner_rating ac gpm (length (players self)) (repetitions self)) (\<lambda>gpr.
     and_then (ac_eigenvector ac nc) (\<lambda>ej.
     and_then (ac_eigenvector ac vc) (\<lambda>em.
       Inr (self\<lparr>cooperation := Val cm,
                 normalised_cooperation := Val nc,
                 vengeful_cooperation := Val vc,
                 cooperating_rating := Val cr,
                 good_partner_matrix := Val gpm,
                 good_partner_rating := Val gpr,
                 eigenjesus_rating := Val ej,
                 eigenmoses_rating := Val em\<rparr>))))))))))"

definition ResultSet_init ::
  "payoff_module \<Rightarrow> cooperation_module \<Rightarrow> string list \<Rightarrow> int \<Rightarrow> int \<Rightarrow> int channels \<Rightarrow> bool
     \<Rightarrow> error + result_set" where
  "ResultSet_init ap ac players' turns' repetitions' outcome' with_morality =
     (let t = new_tournament players' turns' repetitions' outcome' in
      and_then (ResultSet_results t outcome') (\<lambda>res.
      and_then (if contains_key res ''payoff''
                then payoff_reducer ap (defaults t res) else Inr (defaults t res)) (\<lambda>self.
        if contains_key (results self) ''cooperation'' \<and> with_morality
        then cooperation_reducer ac self else Inr self)))"

section \<open>The exporter: \<^verbatim>\<open>ResultSet.csv\<close>\<close>

text \<open>\<^verbatim>\<open>sep.join(xs)\<close>\<close>

fun str_join :: "string \<Rightarrow> string list \<Rightarrow> string" where
  "str_join sep [] = []"
| "str_join sep [x] = x"
| "str_join sep (x # y # ys) = x @ sep @ str_join sep (y # ys)"

text \<open>
  \<^verbatim>\<open>csv.writer(csv_string, lineterminator="\n").writerow(row)\<close> of Python's
  standard library, in the default dialect: fields are joined by a comma; a field that
  holds a comma, a double quote or a line break is put in double quotes, with its
  double quotes doubled; a row of one empty field is written as two double quotes.
\<close>

definition comma :: char where "comma = CHR 0x2C"
definition dquote :: char where "dquote = CHR 0x22"
definition newline :: char where "newline = CHR 0x0A"
definition carriage_return :: char where "carriage_return = CHR 0x0D"

definition plain_char :: "char \<Rightarrow> bool" where
  "plain_char c = (c \<noteq> comma \<and> c \<noteq> dquote \<and> c \<noteq> newline \<and> c \<noteq> carriage_return)"

definition quote_field :: "string \<Rightarrow> string" where
  "quote_field field =
     (if list_all plain_char field then field
      else [dquote] @ concat (map (\<lambda>c. if c = dquote then [dquote, dquote] else [c]) field)
           @ [dquote])"

definition writerow :: "string list \<Rightarrow> string" where
  "writerow row =
     (if row = [[]] then [dquote, dquote] else str_join [comma] (map quote_field row))
     @ [newline]"

text \<open>
  \<^verbatim>\<open>[self.normalised_scores[rank][irep] for rank in self.ranking]\<close>: iterating
  over \<^verbatim>\<open>None\<close> and subscripting \<^verbatim>\<open>None\<close> raise \<^verbatim>\<open>TypeError\<close>. The ranking
  holds player indices, which are not negative.
\<close>

definition ranked_scores :: "result_set \<Rightarrow> nat \<Rightarrow> error + real list" where
  "ranked_scores self irep =
     and_then (getattr (ranking self)) (\<lambda>rk.
       case rk of
         None \<Rightarrow> Inl TypeError
       | Some ranks \<Rightarrow>
           comprehension (\<lambda>rank.
             and_then (getattr (normalised_scores self)) (\<lambda>ns.
               case ns of
                 None \<Rightarrow> Inl TypeError
               | Some table \<Rightarrow> index2 table rank irep)) ranks)"

text \<open>
  \<^verbatim>\<open>csv\<close>; the parameter \<open>str\<close> is Python's \<^verbatim>\<open>str\<close> on the score values.
  \<^verbatim>\<open>",".join(None)\<close> raises \<^verbatim>\<open>TypeError\<close>.
\<close>

definition ResultSet_csv :: "(real \<Rightarrow> string) \<Rightarrow> result_set \<Rightarrow> error + string" where
  "ResultSet_csv str self =
     and_then (getattr (ranked_names self)) (\<lambda>rn.
       case rn of
         None \<Rightarrow> Inl TypeError
       | Some names \<Rightarrow>
           for_each [0..<nat (repetitions self)] (\<lambda>irep csv_string.
             and_then (ranked_scores self irep) (\<lambda>data.
               Inr (csv_string @ writerow (map str data))))
             (str_join [comma] names @ [newline]))"

section \<open>Stand-ins for the absent modules\<close>

text \<open>
  Two instances of the module parameters, used only to run the constructor on concrete
  inputs: every function returns a fixed table for a tournament of two players, whatever
  its arguments are.
\<close>

definition sample_payoff_module :: payoff_module where
  "sample_payoff_module =
     \<lparr>ap_scores = (\<lambda>payoff n r. Inr [[6, 4], [2, 4]]),
      ap_normalised_scores = (\<lambda>sc n t. Inr [[3, 2], [1, 2]]),
      ap_ranking = (\<lambda>sc n. Inr [0, 1]),
      ap_ranked_names = (\<lambda>ps rk. Inr [''Alice'', ''Bob'']),
      ap_normalised_payoff = (\<lambda>payoff t r. Inr ([[0, 5 / 2], [3 / 2, 0]], [[0, 1 / 2], [1 / 2, 0]])),
      ap_wins = (\<lambda>payoff n r. Inr [[1, 0], [0, 0]])\<rparr>"

definition sample_cooperation_module :: cooperation_module where
  "sample_cooperation_module =
     \<lparr>ac_cooperation_matrix = (\<lambda>coop. Inr [[4, 3], [1, 4]]),
      ac_normalised_cooperation = (\<lambda>cm t r. Inr [[1, 3 / 4], [1 / 4, 1]]),
      ac_vengeful_cooperation = (\<lambda>nc. Inr [[1, 1 / 2], [- 1 / 2, 1]]),
      ac_cooperating_rating = (\<lambda>cm n t r. Inr [3 / 4, 1 / 4]),
      ac_good_partner_matrix = (\<lambda>coop n r. Inr [[0, 2], [1, 0]]),
      ac_good_partner_rating = (\<lambda>gpm n r. Inr [1, 1 / 2]),
      ac_eigenvector = (\<lambda>m. Inr [3 / 4, 1 / 4])\<rparr>"

section \<open>Notions used to state the properties of the payoff differences\<close>

text \<open>
  The per-turn payoff difference of the ordered pair \<open>(i, j)\<close> in repetition \<open>r\<close>,
  in exact arithmetic; \<open>shape2 a b m\<close>: the matrix \<open>m\<close> has \<open>a\<close> rows of \<open>b\<close>
  entries; \<open>diffs_row\<close>: the differences of player \<open>i\<close>, opponent by opponent and,
  for each opponent, repetition by repetition.
\<close>

definition per_turn_diff :: "'m tournament_scheme \<Rightarrow> int tensor \<Rightarrow> nat \<Rightarrow> nat \<Rightarrow> nat \<Rightarrow> real" where
  "per_turn_diff self payoff i j r =
     (real_of_int (payoff ! i ! j ! r) - real_of_int (payoff ! j ! i ! r)) / real_of_int (turns self)"

definition shape2 :: "nat \<Rightarrow> nat \<Rightarrow> 'a list list \<Rightarrow> bool" where
  "shape2 a b m = (length m = a \<and> list_all (\<lambda>row. length row = b) m)"

definition diffs_row :: "'m tournament_scheme \<Rightarrow> int tensor \<Rightarrow> nat \<Rightarrow> real list" where
  "diffs_row self payoff i =
     concat (map (\<lambda>j. map (per_turn_diff self payoff i j) [0..<nat (repetitions self)])
               [0..<nplayers self])"

section \<open>Facts about loops\<close>

lemma and_then_Inr [simp]: "and_then (Inr x) f = f x"
  by (simp add: and_then_def)

lemma and_then_Inl [simp]: "and_then (Inl e) f = Inl e"
  by (simp add: and_then_def)

lemma for_each_append:
  "for_each (xs @ ys) body s = and_then (for_each xs body s) (for_each ys body)"
proof (induction xs arbitrary: s)
  case Nil
  then show ?case by simp
next
  case (Cons a xs)
  then show ?case by (cases "body a s") simp_all
qed

lemma for_each_map: "for_each (map f xs) body s = for_each xs (\<lambda>x. body (f x)) s"
proof (induction xs arbitrary: s)
  case Nil
  then show ?case by simp
next
  case (Cons a xs)
  then show ?case by (cases "body (f a) s") simp_all
qed

lemma enumerate_as_map: "enumerate 0 xs = map (\<lambda>k. (k, xs ! k)) [0..<length xs]"
  by (rule nth_equalityI) (simp_all add: nth_enumerate_eq)

lemma for_each_enumerate:
  "for_each (enumerate 0 xs) body s = for_each [0..<length xs] (\<lambda>k. body (k, xs ! k)) s"
  by (simp only: enumerate_as_map for_each_map)

lemma for_each_upt_invariant:
  assumes "P 0 s"
    and "\<And>k s. k < n \<Longrightarrow> P k s \<Longrightarrow> \<exists>s'. body k s = Inr s' \<and> P (Suc k) s'"
  shows "\<exists>s'. for_each [0..<n] body s = Inr s' \<and> P n s'"
  using assms
proof (induction n)
  case 0
  then show ?case by simp
next
  case (Suc n)
  have "\<And>k s. k < n \<Longrightarrow> P k s \<Longrightarrow> \<exists>s'. body k s = Inr s' \<and> P (Suc k) s'"
    using Suc.prems(2) by simp
  then have "\<exists>s'. for_each [0..<n] body s = Inr s' \<and> P n s'"
    using Suc.IH Suc.prems(1) by blast
  then obtain s1 where s1: "for_each [0..<n] body s = Inr s1" "P n s1" by blast
  obtain s2 where s2: "body n s1 = Inr s2" "P (Suc n) s2"
    using Suc.prems(2)[of n s1] s1 by blast
  show ?case using s1 s2 by (simp add: for_each_append)
qed

lemma for_each_preserves:
  assumes "for_each xs body s = Inr s'" and "I s"
    and "\<And>x s s'. x \<in> set xs \<Longrightarrow> I s \<Longrightarrow> body x s = Inr s' \<Longrightarrow> I s'"
  shows "I s'"
  using assms
proof (induction xs arbitrary: s)
  case Nil
  then show ?case by simp
next
  case (Cons a xs)
  show ?case
  proof (cases "body a s")
    case (Inl e)
    then show ?thesis using Cons.prems(1) by simp
  next
    case (Inr s1)
    have "I s1" using Cons.prems(3)[of a s s1] Cons.prems(2) Inr by simp
    moreover have "for_each xs body s1 = Inr s'" using Cons.prems(1) Inr by simp
    moreover have "\<And>x s s'. x \<in> set xs \<Longrightarrow> I s \<Longrightarrow> body x s = Inr s' \<Longrightarrow> I s'"
      by (rule Cons.prems(3)[OF list.set_intros(2)])
    ultimately show ?thesis using Cons.IH[of s1] by blast
  qed
qed

lemma for_each_fails:
  assumes "x \<in> set xs" and "\<And>s. I s \<Longrightarrow> \<exists>e'. body x s = Inl e'"
    and "I s"
    and "\<And>y s s'. y \<in> set xs \<Longrightarrow> I s \<Longrightarrow> body y s = Inr s' \<Longrightarrow> I s'"
    and "\<And>y s e'. y \<in> set xs \<Longrightarrow> I s \<Longrightarrow> body y s = Inl e' \<Longrightarrow> e' = e"
  shows "for_each xs body s = Inl e"
  using assms
proof (induction xs arbitrary: s)
  case Nil
  then show ?case by simp
next
  case (Cons a xs)
  show ?case
  proof (cases "body a s")
    case (Inl e')
    then have "e' = e" using Cons.prems(5)[of a s e'] Cons.prems(3) by simp
    then show ?thesis using Inl by simp
  next
    case (Inr s')
    have "a \<noteq> x"
    proof
      assume "a = x"
      then obtain e' where "body a s = Inl e'" using Cons.prems(2)[of s] Cons.prems(3) by blast
      then show False using Inr by simp
    qed
    then have 1: "x \<in> set xs" using Cons.prems(1) by simp
    have 2: "I s'" using Cons.prems(4)[of a s s'] Cons.prems(3) Inr by simp
    have 3: "\<And>y s s'. y \<in> set xs \<Longrightarrow> I s \<Longrightarrow> body y s = Inr s' \<Longrightarrow> I s'"
      by (rule Cons.prems(4)[OF list.set_intros(2)])
    have 4: "\<And>y s e'. y \<in> set xs \<Longrightarrow> I s \<Longrightarrow> body y s = Inl e' \<Longrightarrow> e' = e"
      by (rule Cons.prems(5)[OF list.set_intros(2)])
    have "for_each xs body s' = Inl e"
      by (rule Cons.IH[OF 1 Cons.prems(2) 2 3 4])
    then show ?thesis using Inr by simp
  qed
qed

lemma for_each_error:
  assumes "for_each xs body s = Inl e'" and "I s"
    and "\<And>y s s'. y \<in> set xs \<Longrightarrow> I s \<Longrightarrow> body y s = Inr s' \<Longrightarrow> I s'"
    and "\<And>y s e'. y \<in> set xs \<Longrightarrow> I s \<Longrightarrow> body y s = Inl e' \<Longrightarrow> e' = e"
  shows "e' = e"
  using assms
proof (induction xs arbitrary: s)
  case Nil
  then show ?case by simp
next
  case (Cons a xs)
  show ?case
  proof (cases "body a s")
    case (Inl e1)
    then have "e1 = e" using Cons.prems(4)[of a s e1] Cons.prems(2) by simp
    then show ?thesis using Inl Cons.prems(1) by simp
  next
    case (Inr s1)
    have 1: "for_each xs body s1 = Inl e'" using Cons.prems(1) Inr by simp
    have 2: "I s1" using Cons.prems(3)[of a s s1] Cons.prems(2) Inr by simp
    have 3: "\<And>y s s'. y \<in> set xs \<Longrightarrow> I s \<Longrightarrow> body y s = Inr s' \<Longrightarrow> I s'"
      by (rule Cons.prems(3)[OF list.set_intros(2)])
    have 4: "\<And>y s e'. y \<in> set xs \<Longrightarrow> I s \<Longrightarrow> body y s = Inl e' \<Longrightarrow> e' = e"
      by (rule Cons.prems(4)[OF list.set_intros(2)])
    show ?thesis by (rule Cons.IH[OF 1 2 3 4])
  qed
qed

section \<open>Facts about tensors\<close>

lemma shape3_iff:
  "shape3 a b c m \<longleftrightarrow>
     length m = a \<and> (\<forall>i<a. length (m ! i) = b \<and> (\<forall>j<b. length (m ! i ! j) = c))"
  unfolding shape3_def list_all_length by blast

lemma covers_iff:
  "covers n rm \<longleftrightarrow> n \<le> length rm \<and> (\<forall>i<n. n \<le> length (rm ! i))"
  unfolding covers_def list_all_length by (cases "n \<le> length rm") simp_all

lemma tensor_eqI:
  assumes "shape3 a b c m" and "shape3 a b c m'"
    and "\<And>i j r. i < a \<Longrightarrow> j < b \<Longrightarrow> r < c \<Longrightarrow> m ! i ! j ! r = m' ! i ! j ! r"
  shows "m = m'"
proof (rule nth_equalityI)
  show "length m = length m'" using assms(1,2) by (simp add: shape3_iff)
next
  fix i assume i: "i < length m"
  then have ia: "i < a" using assms(1) by (simp add: shape3_iff)
  show "m ! i = m' ! i"
  proof (rule nth_equalityI)
    show "length (m ! i) = length (m' ! i)" using assms(1,2) ia by (simp add: shape3_iff)
  next
    fix j assume "j < length (m ! i)"
    then have jb: "j < b" using assms(1) ia by (simp add: shape3_iff)
    show "m ! i ! j = m' ! i ! j"
    proof (rule nth_equalityI)
      show "length (m ! i ! j) = length (m' ! i ! j)"
        using assms(1,2) ia jb by (simp add: shape3_iff)
    next
      fix r assume "r < length (m ! i ! j)"
      then have "r < c" using assms(1) ia jb by (simp add: shape3_iff)
      then show "m ! i ! j ! r = m' ! i ! j ! r" using assms(3) ia jb by blast
    qed
  qed
qed

lemma nth_update3:
  assumes "i' < length m" "j' < length (m ! i')" "r' < length (m ! i' ! j')"
  shows "m[i := (m ! i)[j := (m ! i ! j)[r := v]]] ! i' ! j' ! r' =
         (if i' = i \<and> j' = j \<and> r' = r then v else m ! i' ! j' ! r')"
proof (cases "i' = i")
  case False
  then show ?thesis by simp
next
  case i: True
  show ?thesis
  proof (cases "j' = j")
    case False
    then show ?thesis using i assms by simp
  next
    case j: True
    show ?thesis
    proof (cases "r' = r")
      case False
      then show ?thesis using i j assms by simp
    next
      case True
      then show ?thesis using i j assms by simp
    qed
  qed
qed

lemma shape3_update:
  assumes "shape3 a b c m"
  shows "shape3 a b c (m[i := (m ! i)[j := (m ! i ! j)[r := v]]])"
proof -
  let ?m = "m[i := (m ! i)[j := (m ! i ! j)[r := v]]]"
  have len: "length ?m = a" using assms by (simp add: shape3_iff)
  have rows: "length (?m ! i') = b" if "i' < a" for i'
    using that assms by (cases "i' = i") (simp_all add: shape3_iff)
  have cells: "length (?m ! i' ! j') = c" if "i' < a" "j' < b" for i' j'
  proof (cases "i' = i")
    case False
    then show ?thesis using that assms by (simp add: shape3_iff)
  next
    case True
    then show ?thesis using that assms by (cases "j' = j") (simp_all add: shape3_iff)
  qed
  show ?thesis using len rows cells by (simp add: shape3_iff)
qed

lemma assign3_ok:
  assumes "shape3 a b c m" "i < a" "j < b" "r < c"
  shows "assign3 m i j r v = Inr (m[i := (m ! i)[j := (m ! i ! j)[r := v]]])"
  using assms by (simp add: assign3_def shape3_iff)

lemma assign3_result:
  "assign3 m i j r v = Inr m' \<Longrightarrow> m' = m[i := (m ! i)[j := (m ! i ! j)[r := v]]]"
  by (cases "i < length m \<and> j < length (m ! i) \<and> r < length (m ! i ! j)")
     (simp_all add: assign3_def)

lemma assign3_error: "assign3 m i j r v = Inl e \<Longrightarrow> e = IndexError"
  by (cases "i < length m \<and> j < length (m ! i) \<and> r < length (m ! i ! j)")
     (simp_all add: assign3_def)

lemma index2_error: "index2 m i j = Inl e \<Longrightarrow> e = IndexError"
  by (cases "i < length m \<and> j < length (m ! i)") (simp_all add: index2_def)

lemma index2_ok: "i < length m \<Longrightarrow> j < length (m ! i) \<Longrightarrow> index2 m i j = Inr (m ! i ! j)"
  by (simp add: index2_def)

section \<open>The reshaper copies one repetition\<close>

lemma cell_step_shape:
  assumes "and_then (index2 rm i j) (\<lambda>v. assign3 s i j k v) = Inr s'" and "shape3 a b c s"
  shows "shape3 a b c s'"
proof (cases "index2 rm i j")
  case (Inl e)
  then show ?thesis using assms(1) by simp
next
  case (Inr v)
  then have "assign3 s i j k v = Inr s'" using assms(1) by simp
  then have "s' = s[i := (s ! i)[j := (s ! i ! j)[k := v]]]" by (rule assign3_result)
  then show ?thesis using assms(2) by (simp add: shape3_update)
qed

lemma cell_step_error:
  assumes "and_then (index2 rm i j) (\<lambda>v. assign3 s i j k v) = Inl e"
  shows "e = IndexError"
proof (cases "index2 rm i j")
  case (Inl e')
  then show ?thesis using assms index2_error[of rm i j e'] by simp
next
  case (Inr v)
  then have "assign3 s i j k v = Inl e" using assms by simp
  then show ?thesis by (rule assign3_error)
qed

lemma cell_step_fails:
  assumes "shape3 n n c s" "i < n" "j < n" "index2 rm i j = Inl IndexError \<or> c \<le> k"
  shows "\<exists>e'. and_then (index2 rm i j) (\<lambda>v. assign3 s i j k v) = Inl e'"
proof (cases "index2 rm i j")
  case (Inl e)
  then show ?thesis by simp
next
  case (Inr v)
  then have "c \<le> k" using assms(4) by simp
  moreover have "length (s ! i ! j) = c" using assms(1-3) by (simp add: shape3_iff)
  ultimately have "assign3 s i j k v = Inl IndexError" by (simp add: assign3_def)
  then show ?thesis using Inr by simp
qed

lemma copy_row_ok:
  assumes sh: "shape3 n n c m" and i: "i < n" and k: "k < c"
    and irm: "i < length rm" and row: "n \<le> length (rm ! i)"
  shows "\<exists>m'. for_each [0..<n] (\<lambda>j matrix. and_then (index2 rm i j) (\<lambda>v. assign3 matrix i j k v)) m
               = Inr m'
           \<and> shape3 n n c m'
           \<and> (\<forall>a<n. \<forall>b<n. \<forall>r<c. m' ! a ! b ! r =
                (if a = i \<and> r = k then rm ! i ! b else m ! a ! b ! r))"
proof -
  let ?body = "\<lambda>j matrix. and_then (index2 rm i j) (\<lambda>v. assign3 matrix i j k v)"
  let ?P = "\<lambda>j m'. shape3 n n c m' \<and>
      (\<forall>a<n. \<forall>b<n. \<forall>r<c. m' ! a ! b ! r =
         (if a = i \<and> b < j \<and> r = k then rm ! i ! b else m ! a ! b ! r))"
  have init: "?P 0 m" using sh by simp
  have step: "\<exists>s'. ?body j s = Inr s' \<and> ?P (Suc j) s'" if j: "j < n" and P: "?P j s" for j s
  proof -
    let ?s' = "s[i := (s ! i)[j := (s ! i ! j)[k := rm ! i ! j]]]"
    have shs: "shape3 n n c s" using P by simp
    have "index2 rm i j = Inr (rm ! i ! j)" using irm row j by (simp add: index2_def)
    moreover have "assign3 s i j k (rm ! i ! j) = Inr ?s'"
      using shs i j k by (rule assign3_ok)
    ultimately have run: "?body j s = Inr ?s'" by simp
    have sh': "shape3 n n c ?s'" using shs by (rule shape3_update)
    have vals: "?s' ! a ! b ! r = (if a = i \<and> b < Suc j \<and> r = k then rm ! i ! b else m ! a ! b ! r)"
      if "a < n" "b < n" "r < c" for a b r
    proof -
      have "?s' ! a ! b ! r = (if a = i \<and> b = j \<and> r = k then rm ! i ! j else s ! a ! b ! r)"
        using shs that by (intro nth_update3) (simp_all add: shape3_iff)
      moreover have "s ! a ! b ! r = (if a = i \<and> b < j \<and> r = k then rm ! i ! b else m ! a ! b ! r)"
        using P that by blast
      ultimately show ?thesis by (cases "b = j") (auto simp: less_Suc_eq)
    qed
    show ?thesis using run sh' vals by blast
  qed
  have "\<exists>s'. for_each [0..<n] ?body m = Inr s' \<and> ?P n s'"
    using init step by (rule for_each_upt_invariant[where P = ?P])
  then obtain m' where m': "for_each [0..<n] ?body m = Inr m'" "?P n m'" by blast
  have "\<forall>a<n. \<forall>b<n. \<forall>r<c. m' ! a ! b ! r =
          (if a = i \<and> r = k then rm ! i ! b else m ! a ! b ! r)"
    using m'(2) by simp
  then show ?thesis using m' by blast
qed

lemma copy_row_fails:
  assumes "shape3 n n c m" "i < n" "j < n" "index2 rm i j = Inl IndexError \<or> c \<le> k"
  shows "for_each [0..<n] (\<lambda>j matrix. and_then (index2 rm i j) (\<lambda>v. assign3 matrix i j k v)) m
         = Inl IndexError"
proof (rule for_each_fails[where x = j and I = "shape3 n n c"])
  show "j \<in> set [0..<n]" using assms(3) by simp
  show "\<exists>e'. and_then (index2 rm i j) (\<lambda>v. assign3 s i j k v) = Inl e'"
    if "shape3 n n c s" for s
    using that assms(2-4) by (rule cell_step_fails)
  show "shape3 n n c m" by (rule assms(1))
  show "shape3 n n c s'"
    if "and_then (index2 rm i y) (\<lambda>v. assign3 s i y k v) = Inr s'" "shape3 n n c s" for y s s'
    using that by (rule cell_step_shape)
  show "e' = IndexError"
    if "and_then (index2 rm i y) (\<lambda>v. assign3 s i y k v) = Inl e'" for y s e'
    using that by (rule cell_step_error)
qed

lemma copy_row_shape:
  assumes "for_each xs (\<lambda>j matrix. and_then (index2 rm i j) (\<lambda>v. assign3 matrix i j k v)) m = Inr m'"
    and "shape3 a b c m"
  shows "shape3 a b c m'"
  using assms
proof (rule for_each_preserves[where I = "shape3 a b c"])
  show "shape3 a b c s'"
    if "and_then (index2 rm i x) (\<lambda>v. assign3 s i x k v) = Inr s'" "shape3 a b c s" for x s s'
    using that by (rule cell_step_shape)
qed

lemma copy_row_error:
  assumes "for_each xs (\<lambda>j matrix. and_then (index2 rm i j) (\<lambda>v. assign3 matrix i j k v)) m = Inl e"
  shows "e = IndexError"
  using assms
proof (rule for_each_error[where I = "\<lambda>s. True"])
  show "e' = IndexError"
    if "and_then (index2 rm i y) (\<lambda>v. assign3 s i y k v) = Inl e'" for y s e'
    using that by (rule cell_step_error)
qed simp_all

lemma copy_repetition_ok:
  assumes sh: "shape3 n n c m" and n: "length (players self) = n"
    and k: "n = 0 \<or> k < c" and cov: "covers n rm"
  shows "\<exists>m'. copy_repetition self k rm m = Inr m' \<and> shape3 n n c m' \<and>
           (\<forall>a<n. \<forall>b<n. \<forall>r<c. m' ! a ! b ! r = (if r = k then rm ! a ! b else m ! a ! b ! r))"
proof -
  let ?row = "\<lambda>i. for_each [0..<n] (\<lambda>j matrix. and_then (index2 rm i j) (\<lambda>v. assign3 matrix i j k v))"
  let ?P = "\<lambda>i m'. shape3 n n c m' \<and>
      (\<forall>a<n. \<forall>b<n. \<forall>r<c. m' ! a ! b ! r =
         (if a < i \<and> r = k then rm ! a ! b else m ! a ! b ! r))"
  have init: "?P 0 m" using sh by simp
  have step: "\<exists>s'. ?row i s = Inr s' \<and> ?P (Suc i) s'" if i: "i < n" and P: "?P i s" for i s
  proof -
    have kc: "k < c" using k i by auto
    have irm: "i < length rm" and row: "n \<le> length (rm ! i)"
      using cov i by (simp_all add: covers_iff)
    have shs: "shape3 n n c s" using P by simp
    obtain s' where run: "?row i s = Inr s'" and sh': "shape3 n n c s'"
      and v: "\<forall>a<n. \<forall>b<n. \<forall>r<c. s' ! a ! b ! r =
                (if a = i \<and> r = k then rm ! i ! b else s ! a ! b ! r)"
      using copy_row_ok[OF shs i kc irm row] by blast
    have vals: "s' ! a ! b ! r = (if a < Suc i \<and> r = k then rm ! a ! b else m ! a ! b ! r)"
      if "a < n" "b < n" "r < c" for a b r
    proof -
      have "s' ! a ! b ! r = (if a = i \<and> r = k then rm ! i ! b else s ! a ! b ! r)"
        using v that by blast
      moreover have "s ! a ! b ! r = (if a < i \<and> r = k then rm ! a ! b else m ! a ! b ! r)"
        using P that by blast
      ultimately show ?thesis by (cases "a = i") (auto simp: less_Suc_eq)
    qed
    show ?thesis using run sh' vals by blast
  qed
  have "\<exists>s'. for_each [0..<n] ?row m = Inr s' \<and> ?P n s'"
    using init step by (rule for_each_upt_invariant[where P = ?P])
  then obtain m' where m': "for_each [0..<n] ?row m = Inr m'" "?P n m'" by blast
  have "\<forall>a<n. \<forall>b<n. \<forall>r<c. m' ! a ! b ! r = (if r = k then rm ! a ! b else m ! a ! b ! r)"
    using m'(2) by simp
  moreover have "copy_repetition self k rm m = Inr m'"
    using m'(1) by (simp add: copy_repetition_def n)
  ultimately show ?thesis using m'(2) by blast
qed

lemma copy_repetition_shape:
  assumes "copy_repetition self k rm m = Inr m'" and "shape3 a b c m"
  shows "shape3 a b c m'"
  using assms unfolding copy_repetition_def
proof (rule for_each_preserves[where I = "shape3 a b c"])
  show "shape3 a b c s'"
    if "for_each [0..<length (players self)]
          (\<lambda>j matrix. and_then (index2 rm x j) (\<lambda>v. assign3 matrix x j k v)) s = Inr s'"
       "shape3 a b c s" for x s s'
    using that by (rule copy_row_shape)
qed

lemma copy_repetition_error:
  assumes "copy_repetition self k rm m = Inl e"
  shows "e = IndexError"
  using assms unfolding copy_repetition_def
proof (rule for_each_error[where I = "\<lambda>s. True"])
  show "e' = IndexError"
    if "for_each [0..<length (players self)]
          (\<lambda>j matrix. and_then (index2 rm y j) (\<lambda>v. assign3 matrix y j k v)) s = Inl e'"
    for y s e'
    using that by (rule copy_row_error)
qed simp_all

lemma copy_repetition_fails:
  assumes sh: "shape3 n n c m" and n: "length (players self) = n"
    and i: "i < n" and j: "j < n" and bad: "index2 rm i j = Inl IndexError \<or> c \<le> k"
  shows "copy_repetition self k rm m = Inl IndexError"
  unfolding copy_repetition_def n
proof (rule for_each_fails[where x = i and I = "shape3 n n c"])
  show "i \<in> set [0..<n]" using i by simp
  show "\<exists>e'. for_each [0..<n] (\<lambda>j matrix. and_then (index2 rm i j) (\<lambda>v. assign3 matrix i j k v)) s
             = Inl e'"
    if "shape3 n n c s" for s
    using copy_row_fails[OF that i j bad] by blast
  show "shape3 n n c m" by (rule sh)
  show "shape3 n n c s'"
    if "for_each [0..<n] (\<lambda>j matrix. and_then (index2 rm y j) (\<lambda>v. assign3 matrix y j k v)) s
          = Inr s'" "shape3 n n c s" for y s s'
    using that by (rule copy_row_shape)
  show "e' = IndexError"
    if "for_each [0..<n] (\<lambda>j matrix. and_then (index2 rm y j) (\<lambda>v. assign3 matrix y j k v)) s
          = Inl e'" for y s e'
    using that by (rule copy_row_error)
qed

lemma not_covers:
  assumes "\<not> covers n rm"
  shows "\<exists>i<n. \<exists>j<n. index2 rm i j = Inl IndexError"
proof (cases "n \<le> length rm")
  case False
  then have "length rm < n" "0 < n" by simp_all
  moreover have "index2 rm (length rm) 0 = Inl IndexError" by (simp add: index2_def)
  ultimately show ?thesis by blast
next
  case True
  then obtain i where i: "i < n" "length (rm ! i) < n"
    using assms by (auto simp: covers_iff not_le)
  have "index2 rm i (length (rm ! i)) = Inl IndexError" by (simp add: index2_def)
  then show ?thesis using i by blast
qed

lemma shape3_null:
  assumes "nplayers self = n"
  shows "shape3 n n (nat (repetitions self)) (null_results_matrix self)"
  using assms by (simp add: shape3_iff null_results_matrix_def Let_def)

lemma null_nth:
  assumes "nplayers self = n" "a < n" "b < n" "r < nat (repetitions self)"
  shows "null_results_matrix self ! a ! b ! r = 0"
  using assms by (simp add: null_results_matrix_def Let_def)

lemma shape3_canonical:
  assumes "length (players self) = n"
  shows "shape3 n n (nat (repetitions self)) (canonical self raw)"
  using assms by (simp add: shape3_iff canonical_def)

lemma canonical_nth:
  assumes "a < length (players self)" "b < length (players self)" "r < nat (repetitions self)"
  shows "canonical self raw ! a ! b ! r = (if r < length raw then raw ! r ! a ! b else 0)"
  using assms by (simp add: canonical_def)

section \<open>The reshaper on one channel and on the whole bundle\<close>

lemma reshape_channel_loop_ok:
  assumes inv: "nplayers self = length (players self)" and acc: "accepted self raw"
  shows "for_each (enumerate 0 raw)
          (\<lambda>(index, result_matrix) (matrix, res).
             and_then (copy_repetition self index result_matrix matrix)
               (\<lambda>matrix. Inr (matrix, AList.update c matrix res)))
          (null_results_matrix self, res)
         = Inr (canonical self raw,
                if raw = [] then res else AList.update c (canonical self raw) res)"
proof -
  define n where "n = length (players self)"
  define R where "R = nat (repetitions self)"
  have n: "length (players self) = n" and n': "nplayers self = n"
    using inv by (simp_all add: n_def)
  let ?body = "\<lambda>k (matrix, res).
      and_then (copy_repetition self k (raw ! k) matrix)
        (\<lambda>matrix. Inr (matrix, AList.update c matrix res))"
  let ?P = "\<lambda>k s. shape3 n n R (fst s) \<and>
      (\<forall>a<n. \<forall>b<n. \<forall>r<R. fst s ! a ! b ! r = (if r < k then raw ! r ! a ! b else 0)) \<and>
      snd s = (if k = 0 then res else AList.update c (fst s) res)"
  have init: "?P 0 (null_results_matrix self, res)"
    by (simp add: R_def shape3_null[OF n'] null_nth[OF n'])
  have step: "\<exists>s'. ?body k s = Inr s' \<and> ?P (Suc k) s'" if k: "k < length raw" and P: "?P k s" for k s
  proof -
    obtain m res' where s: "s = (m, res')" by (cases s)
    have shm: "shape3 n n R m" using P s by simp
    have kR: "n = 0 \<or> k < R" using acc k by (auto simp: accepted_def n R_def)
    have cov: "covers n (raw ! k)"
    proof (cases "n = 0")
      case True
      then show ?thesis by (simp add: covers_iff)
    next
      case False
      then have "list_all (covers n) raw" using acc by (simp add: accepted_def n)
      then show ?thesis using k by (simp add: list_all_length)
    qed
    obtain m' where run: "copy_repetition self k (raw ! k) m = Inr m'" and sh': "shape3 n n R m'"
      and v: "\<forall>a<n. \<forall>b<n. \<forall>r<R. m' ! a ! b ! r =
                (if r = k then raw ! k ! a ! b else m ! a ! b ! r)"
      using copy_repetition_ok[OF shm n kR cov] by blast
    have vals: "m' ! a ! b ! r = (if r < Suc k then raw ! r ! a ! b else 0)"
      if "a < n" "b < n" "r < R" for a b r
    proof -
      have "m' ! a ! b ! r = (if r = k then raw ! k ! a ! b else m ! a ! b ! r)"
        using v that by blast
      moreover have "m ! a ! b ! r = (if r < k then raw ! r ! a ! b else 0)"
        using P s that by simp
      ultimately show ?thesis by (cases "r = k") (auto simp: less_Suc_eq)
    qed
    have "AList.update c m' res' = AList.update c m' res"
      using P s by (cases "k = 0") simp_all
    then have "?body k s = Inr (m', AList.update c m' res)" using run s by simp
    moreover have "?P (Suc k) (m', AList.update c m' res)" using sh' vals by simp
    ultimately show ?thesis by blast
  qed
  have "\<exists>s'. for_each [0..<length raw] ?body (null_results_matrix self, res) = Inr s'
          \<and> ?P (length raw) s'"
    using init step by (rule for_each_upt_invariant[where P = ?P])
  then obtain s' where run: "for_each [0..<length raw] ?body (null_results_matrix self, res) = Inr s'"
    and P: "?P (length raw) s'" by blast
  have "fst s' = canonical self raw"
  proof (rule tensor_eqI[where a = n and b = n and c = R])
    show "shape3 n n R (fst s')" using P by simp
    show "shape3 n n R (canonical self raw)" using shape3_canonical[OF n] by (simp add: R_def)
    show "fst s' ! i ! j ! r = canonical self raw ! i ! j ! r" if "i < n" "j < n" "r < R" for i j r
      using P that by (simp add: canonical_nth n R_def[symmetric])
  qed
  moreover have "snd s' = (if raw = [] then res else AList.update c (fst s') res)"
    using P by simp
  ultimately have "s' = (canonical self raw,
                   if raw = [] then res else AList.update c (canonical self raw) res)"
    by (simp add: prod_eq_iff)
  then show ?thesis
    using run by (simp add: for_each_enumerate case_prod_beta' prod.case_eq_if)
qed

lemma channel_loop_upt:
  "for_each (enumerate 0 raw)
     (\<lambda>(index, result_matrix) (matrix, res).
        and_then (copy_repetition self index result_matrix matrix)
          (\<lambda>matrix. Inr (matrix, AList.update c matrix res))) s
   = for_each [0..<length raw]
       (\<lambda>k s. and_then (copy_repetition self k (raw ! k) (fst s))
                 (\<lambda>m. Inr (m, AList.update c m (snd s)))) s"
  by (simp add: for_each_enumerate case_prod_beta')

lemma channel_step_shape:
  assumes "and_then (copy_repetition self k rm (fst s)) (\<lambda>m. Inr (m, AList.update c m (snd s)))
           = Inr s'"
    and "shape3 a b r (fst s)"
  shows "shape3 a b r (fst s')"
proof (cases "copy_repetition self k rm (fst s)")
  case (Inl e)
  then show ?thesis using assms(1) by simp
next
  case (Inr m)
  then have "shape3 a b r m" using assms(2) by (rule copy_repetition_shape)
  then show ?thesis using assms(1) Inr by auto
qed

lemma channel_step_error:
  assumes "and_then (copy_repetition self k rm (fst s)) (\<lambda>m. Inr (m, AList.update c m (snd s)))
           = Inl e"
  shows "e = IndexError"
proof (cases "copy_repetition self k rm (fst s)")
  case (Inl e')
  then show ?thesis using assms copy_repetition_error[of self k rm "fst s" e'] by simp
next
  case (Inr m)
  then show ?thesis using assms by simp
qed

lemma reshape_channel_loop_fails:
  assumes inv: "nplayers self = length (players self)" and nacc: "\<not> accepted self raw"
  shows "for_each (enumerate 0 raw)
          (\<lambda>(index, result_matrix) (matrix, res).
             and_then (copy_repetition self index result_matrix matrix)
               (\<lambda>matrix. Inr (matrix, AList.update c matrix res)))
          (null_results_matrix self :: ('a::zero) tensor, res :: 'a channels)
         = Inl IndexError"
proof -
  define n where "n = length (players self)"
  define R where "R = nat (repetitions self)"
  have n: "length (players self) = n" and n': "nplayers self = n"
    using inv by (simp_all add: n_def)
  have pos: "0 < n" using nacc by (simp add: accepted_def n)
  have "R < length raw \<or> \<not> list_all (covers n) raw"
    using nacc by (auto simp: accepted_def n R_def)
  then obtain k where k: "k < length raw" and bad: "R \<le> k \<or> \<not> covers n (raw ! k)"
    by (auto simp: list_all_length)
  obtain i j where i: "i < n" and j: "j < n"
    and cell: "index2 (raw ! k) i j = Inl IndexError \<or> R \<le> k"
  proof (cases "R \<le> k")
    case True
    then show ?thesis using pos that[of 0 0] by simp
  next
    case False
    then have "\<not> covers n (raw ! k)" using bad by simp
    then show ?thesis using not_covers that by blast
  qed
  have "for_each [0..<length raw]
          (\<lambda>k s. and_then (copy_repetition self k (raw ! k) (fst s))
                    (\<lambda>m. Inr (m, AList.update c m (snd s))))
          (null_results_matrix self, res) = Inl IndexError"
  proof (rule for_each_fails[where x = k and I = "\<lambda>s. shape3 n n R (fst s)"])
    show "k \<in> set [0..<length raw]" using k by simp
    show "\<exists>e'. and_then (copy_repetition self k (raw ! k) (fst s))
                 (\<lambda>m. Inr (m, AList.update c m (snd s))) = Inl e'"
      if "shape3 n n R (fst s)" for s :: "'a tensor \<times> 'a channels"
      using copy_repetition_fails[OF that n i j cell] by simp
    show "shape3 n n R (fst (null_results_matrix self :: 'a tensor, res))"
      by (simp add: R_def shape3_null[OF n'])
    show "shape3 n n R (fst s')"
      if "and_then (copy_repetition self y (raw ! y) (fst s))
            (\<lambda>m. Inr (m, AList.update c m (snd s))) = Inr s'" "shape3 n n R (fst s)"
      for y and s s' :: "'a tensor \<times> 'a channels"
      using that by (rule channel_step_shape)
    show "e' = IndexError"
      if "and_then (copy_repetition self y (raw ! y) (fst s))
            (\<lambda>m. Inr (m, AList.update c m (snd s))) = Inl e'"
      for y e' and s :: "'a tensor \<times> 'a channels"
      using that by (rule channel_step_error)
  qed
  then show ?thesis by (simp only: channel_loop_upt)
qed

lemma reshape_channel_eq:
  assumes "nplayers self = length (players self)"
  shows "reshape_channel self c raw res =
         (if accepted self raw
          then Inr (if raw = [] then res else AList.update c (canonical self raw) res)
          else Inl IndexError)"
proof (cases "accepted self raw")
  case True
  then show ?thesis
    unfolding reshape_channel_def reshape_channel_loop_ok[OF assms True] by simp
next
  case False
  then show ?thesis
    unfolding reshape_channel_def reshape_channel_loop_fails[OF assms False] by simp
qed

lemma results_loop:
  assumes "nplayers self = length (players self)"
  shows "for_each outcome'
           (\<lambda>(result_type, result_list). reshape_channel self result_type result_list) res
         = (if list_all (\<lambda>channel. accepted self (snd channel)) outcome'
            then Inr (reshaped self outcome' res) else Inl IndexError)"
proof (induction outcome' arbitrary: res)
  case Nil
  then show ?case by simp
next
  case (Cons ch rest)
  obtain c raw where ch: "ch = (c, raw)" by (cases ch)
  show ?case
  proof (cases "accepted self raw")
    case True
    then show ?thesis using Cons.IH by (simp add: ch reshape_channel_eq[OF assms])
  next
    case False
    then show ?thesis by (simp add: ch reshape_channel_eq[OF assms])
  qed
qed

lemma ResultSet_results_eq:
  assumes "nplayers self = length (players self)"
  shows "ResultSet_results self outcome' =
         (if list_all (\<lambda>channel. accepted self (snd channel)) outcome'
          then Inr (reshaped self outcome' []) else Inl IndexError)"
  unfolding ResultSet_results_def by (rule results_loop[OF assms])

lemma map_of_reshaped_notin:
  "c \<notin> fst ` set outcome' \<Longrightarrow> map_of (reshaped self outcome' res) c = map_of res c"
proof (induction outcome' arbitrary: res)
  case Nil
  then show ?case by simp
next
  case (Cons ch rest)
  obtain c' raw where ch: "ch = (c', raw)" by (cases ch)
  then have "c' \<noteq> c" and "c \<notin> fst ` set rest" using Cons.prems by auto
  then show ?case using Cons.IH by (simp add: ch update_conv')
qed

lemma map_of_reshaped_in:
  assumes "distinct (map fst outcome')" and "(c, raw) \<in> set outcome'"
  shows "map_of (reshaped self outcome' res) c =
         (if raw = [] then map_of res c else Some (canonical self raw))"
  using assms
proof (induction outcome' arbitrary: res)
  case Nil
  then show ?case by simp
next
  case (Cons ch rest)
  obtain c' raw' where ch: "ch = (c', raw')" by (cases ch)
  show ?case
  proof (cases "(c, raw) = ch")
    case True
    then have "fst ch = c" by auto
    moreover have "fst ch \<notin> set (map fst rest)" using Cons.prems(1) by simp
    ultimately have "c \<notin> fst ` set rest" by simp
    then show ?thesis using True ch by (simp add: map_of_reshaped_notin update_conv')
  next
    case False
    then have in_rest: "(c, raw) \<in> set rest" using Cons.prems(2) by simp
    then have "c \<in> fst ` set rest" by force
    then have "c' \<noteq> c" using Cons.prems(1) ch by auto
    moreover have "distinct (map fst rest)" using Cons.prems(1) by simp
    ultimately show ?thesis using Cons.IH[OF _ in_rest] by (simp add: ch update_conv')
  qed
qed

section \<open>Properties of the reshaper\<close>

lemma shape3_accepted:
  assumes "shape3 (nat (repetitions self)) (length (players self)) (length (players self)) raw"
  shows "accepted self raw"
proof -
  have "length raw = nat (repetitions self)" using assms by (simp add: shape3_iff)
  moreover have "covers (length (players self)) (raw ! k)" if "k < length raw" for k
    using assms that by (simp add: shape3_iff covers_iff)
  ultimately show ?thesis by (simp add: accepted_def list_all_length)
qed

lemma valid_outcome_accepted:
  assumes "valid_outcome self outcome'"
  shows "list_all (\<lambda>channel. accepted self (snd channel)) outcome'"
proof -
  have "accepted self (snd ch)" if "ch \<in> set outcome'" for ch
    using assms that by (auto simp: valid_outcome_def list_all_iff intro: shape3_accepted)
  then show ?thesis by (simp add: list_all_iff)
qed

text \<open>
  Claim C1. For a valid outcome bundle, \<^verbatim>\<open>_results\<close> returns a dictionary in which
  every channel present maps to a tensor \<open>canon\<close> with
  \<open>canon[i][j][r] = raw[r][i][j]\<close> for every repetition \<open>r\<close> and players \<open>i, j\<close>:
  the value is moved, never changed (the statement holds for any type of values).
\<close>

theorem results_reindex:
  assumes inv: "nplayers self = length (players self)"
    and valid: "valid_outcome self outcome'"
    and ch: "(channel, raw) \<in> set outcome'"
    and r: "r < nat (repetitions self)"
    and i: "i < length (players self)" and j: "j < length (players self)"
  shows "\<exists>res canon. ResultSet_results self outcome' = Inr res
           \<and> map_of res channel = Some canon
           \<and> canon ! i ! j ! r = raw ! r ! i ! j"
proof -
  have run: "ResultSet_results self outcome' = Inr (reshaped self outcome' [])"
    using valid_outcome_accepted[OF valid] by (simp add: ResultSet_results_eq[OF inv])
  have "shape3 (nat (repetitions self)) (length (players self)) (length (players self)) raw"
    using valid ch by (auto simp: valid_outcome_def list_all_iff)
  then have len: "length raw = nat (repetitions self)" by (simp add: shape3_iff)
  then have "raw \<noteq> []" using r by auto
  moreover have "distinct (map fst outcome')" using valid by (simp add: valid_outcome_def)
  ultimately have "map_of (reshaped self outcome' []) channel = Some (canonical self raw)"
    using ch by (simp add: map_of_reshaped_in)
  moreover have "canonical self raw ! i ! j ! r = raw ! r ! i ! j"
    using i j r len by (simp add: canonical_nth)
  ultimately show ?thesis using run by blast
qed

theorem results_reindex_witness:
  "\<exists>res canon.
     ResultSet_results
       \<lparr>players = [''A'', ''B''], nplayers = 2, turns = 1, repetitions = 2, outcome = []\<rparr>
       [(''payoff'', [[[1, 2], [3, 4]], [[5, 6], [7, 8 :: int]]]),
        (''cooperation'', [[[0, 1], [1, 0]], [[1, 1], [0, 0]]])]
       = Inr res
     \<and> map_of res ''payoff'' = Some canon
     \<and> canon ! 0 ! 1 ! 1 = 6"
  using results_reindex[of
      "\<lparr>players = [''A'', ''B''], nplayers = 2, turns = 1, repetitions = 2, outcome = []\<rparr>"
      "[(''payoff'', [[[1, 2], [3, 4]], [[5, 6], [7, 8 :: int]]]),
        (''cooperation'', [[[0, 1], [1, 0]], [[1, 1], [0, 0]]])]"
      "''payoff''" "[[[1, 2], [3, 4]], [[5, 6], [7, 8]]]" 1 0 1]
  by (simp add: valid_outcome_def shape3_def)

text \<open>
  Claim C2, as stated, fails: with one player, two repetitions and a payoff tensor that
  holds a single repetition matrix, \<^verbatim>\<open>_results\<close> raises nothing and returns a
  tensor whose second repetition is the 0 of the null matrix.
\<close>

theorem partial_tensor_tolerated:
  "ResultSet_results
     \<lparr>players = [''A''], nplayers = 1, turns = 1, repetitions = 2, outcome = []\<rparr>
     [(''payoff'', [[[5 :: int]]])]
   = Inr [(''payoff'', [[[5, 0]]])]"
  by code_simp

lemma reshaped_drop_empty:
  assumes "distinct (map fst outcome')" and "(c, []) \<in> set outcome'"
  shows "reshaped self (filter (\<lambda>ch. fst ch \<noteq> c) outcome') res = reshaped self outcome' res"
  using assms
proof (induction outcome' arbitrary: res)
  case Nil
  then show ?case by simp
next
  case (Cons ch rest)
  obtain c' raw' where ch: "ch = (c', raw')" by (cases ch)
  show ?case
  proof (cases "c' = c")
    case True
    then have notin: "c \<notin> fst ` set rest" using Cons.prems(1) ch by simp
    then have "(c, []) \<notin> set rest" by force
    then have "raw' = []" using Cons.prems(2) ch True by simp
    moreover have "filter (\<lambda>ch. fst ch \<noteq> c) rest = rest"
      using notin by (auto simp: filter_id_conv)
    ultimately show ?thesis using True ch by simp
  next
    case False
    then have "(c, []) \<in> set rest" using Cons.prems(2) ch by auto
    moreover have "distinct (map fst rest)" using Cons.prems(1) by simp
    ultimately show ?thesis using Cons.IH False ch by simp
  qed
qed

text \<open>
  Claim C10. A channel that maps to an empty list of repetition matrices is not a key of
  the dictionary \<^verbatim>\<open>_results\<close> returns (so the guard \<^verbatim>\<open>'name' in self.results\<close>
  of its reducers is false), and the dictionary is the one returned for the bundle
  without that channel.
\<close>

theorem empty_channel_absent:
  assumes inv: "nplayers self = length (players self)"
    and dist: "distinct (map fst outcome')"
    and empty: "(channel, []) \<in> set outcome'"
    and run: "ResultSet_results self outcome' = Inr res"
  shows "\<not> contains_key res channel
         \<and> ResultSet_results self (filter (\<lambda>ch. fst ch \<noteq> channel) outcome') = Inr res"
proof -
  have acc: "list_all (\<lambda>channel. accepted self (snd channel)) outcome'"
    using run by (auto simp: ResultSet_results_eq[OF inv] split: if_splits)
  then have res: "res = reshaped self outcome' []"
    using run by (simp add: ResultSet_results_eq[OF inv])
  have "map_of res channel = None"
    using map_of_reshaped_in[OF dist empty, of self "[]"] by (simp add: res)
  moreover have "list_all (\<lambda>channel. accepted self (snd channel))
                   (filter (\<lambda>ch. fst ch \<noteq> channel) outcome')"
    using acc by (simp add: list_all_iff)
  ultimately show ?thesis
    by (simp add: contains_key_def ResultSet_results_eq[OF inv] res
        reshaped_drop_empty[OF dist empty])
qed

theorem empty_channel_absent_witness:
  "\<not> contains_key [(''payoff'', [[[5 :: int]]])] ''cooperation''
   \<and> ResultSet_results
       \<lparr>players = [''A''], nplayers = 1, turns = 1, repetitions = 1, outcome = []\<rparr>
       (filter (\<lambda>ch. fst ch \<noteq> ''cooperation'') [(''cooperation'', []), (''payoff'', [[[5]]])])
     = Inr [(''payoff'', [[[5 :: int]]])]"
proof -
  have run: "ResultSet_results
       \<lparr>players = [''A''], nplayers = 1, turns = 1, repetitions = 1, outcome = []\<rparr>
       [(''cooperation'', []), (''payoff'', [[[5 :: int]]])] = Inr [(''payoff'', [[[5]]])]"
    by code_simp
  show ?thesis
    by (rule empty_channel_absent[OF _ _ _ run]) simp_all
qed

section \<open>Payoff differences\<close>

lemma index3_ok:
  assumes "shape3 a b c m" "i < a" "j < b" "r < c"
  shows "index3 m i j r = Inr (m ! i ! j ! r)"
  using assms by (simp add: index3_def shape3_iff)

lemma payoff_diff_ok:
  assumes "shape3 n n c payoff" "i < n" "j < n" "r < c" "turns self \<noteq> 0"
  shows "payoff_diff self payoff i j r = Inr (per_turn_diff self payoff i j r)"
  using assms
  by (simp add: payoff_diff_def per_turn_diff_def index3_ok[OF assms(1)])

lemma payoff_diff_zero_turns:
  assumes "turns self = 0"
  shows "\<exists>e. payoff_diff self payoff i j r = Inl e"
proof (cases "index3 payoff i j r")
  case (Inl e)
  then show ?thesis by (simp add: payoff_diff_def)
next
  case a: (Inr a)
  show ?thesis
  proof (cases "index3 payoff j i r")
    case (Inl e)
    then show ?thesis using a by (simp add: payoff_diff_def)
  next
    case (Inr b)
    then show ?thesis using a assms by (simp add: payoff_diff_def)
  qed
qed

lemma for_each_collect:
  assumes "\<And>k. k < n \<Longrightarrow> g k = Inr (f k)"
  shows "for_each [0..<n] (\<lambda>k acc. and_then (g k) (\<lambda>d. Inr (acc @ [d]))) acc0
         = Inr (acc0 @ map f [0..<n])"
proof -
  let ?body = "\<lambda>k acc. and_then (g k) (\<lambda>d. Inr (acc @ [d]))"
  let ?P = "\<lambda>k acc. acc = acc0 @ map f [0..<k]"
  have "\<exists>s'. for_each [0..<n] ?body acc0 = Inr s' \<and> ?P n s'"
  proof (rule for_each_upt_invariant[where P = ?P])
    show "?P 0 acc0" by simp
    show "\<exists>s'. ?body k s = Inr s' \<and> ?P (Suc k) s'" if "k < n" "?P k s" for k s
      using that assms[of k] by simp
  qed
  then show ?thesis by auto
qed

lemma pair_diffs_ok:
  assumes "shape3 n n (nat (repetitions self)) payoff" "i < n" "j < n" "turns self \<noteq> 0"
  shows "pair_diffs self payoff i j
         = Inr (map (per_turn_diff self payoff i j) [0..<nat (repetitions self)])"
  unfolding pair_diffs_def
  using for_each_collect[where g = "payoff_diff self payoff i j"
      and f = "per_turn_diff self payoff i j" and n = "nat (repetitions self)" and ?acc0.0 = "[]"]
    payoff_diff_ok[OF assms(1-3) _ assms(4)]
  by simp

lemma shape2_iff: "shape2 a b m \<longleftrightarrow> length m = a \<and> (\<forall>i<a. length (m ! i) = b)"
  unfolding shape2_def list_all_length by blast

lemma assign2_ok:
  assumes "shape2 a b m" "i < a" "j < b"
  shows "assign2 m i j v = Inr (m[i := (m ! i)[j := v]])"
  using assms by (simp add: assign2_def shape2_iff)

lemma shape2_update:
  assumes "shape2 a b m"
  shows "shape2 a b (m[i := (m ! i)[j := v]])"
proof -
  let ?m = "m[i := (m ! i)[j := v]]"
  have "length ?m = a" using assms by (simp add: shape2_iff)
  moreover have "length (?m ! i') = b" if "i' < a" for i'
    using that assms by (cases "i' = i") (simp_all add: shape2_iff)
  ultimately show ?thesis by (simp add: shape2_iff)
qed

lemma nth_update2:
  assumes "i' < length m" "j' < length (m ! i')"
  shows "m[i := (m ! i)[j := v]] ! i' ! j' = (if i' = i \<and> j' = j then v else m ! i' ! j')"
proof (cases "i' = i")
  case False
  then show ?thesis by simp
next
  case True
  then show ?thesis using assms by (cases "j' = j") simp_all
qed

lemma diffs_row_ok:
  assumes pay: "shape3 n n (nat (repetitions self)) payoff" and i: "i < n"
    and t: "turns self \<noteq> 0" and sh: "shape2 n n dm"
  shows "\<exists>dm'. for_each [0..<n]
            (\<lambda>opponent diffs_matrix.
               and_then (pair_diffs self payoff i opponent) (\<lambda>diffs.
                 assign2 diffs_matrix i opponent (mean diffs))) dm = Inr dm'
          \<and> shape2 n n dm'
          \<and> (\<forall>a<n. \<forall>b<n. dm' ! a ! b =
                (if a = i
                 then mean (map (per_turn_diff self payoff i b) [0..<nat (repetitions self)])
                 else dm ! a ! b))"
proof -
  let ?D = "\<lambda>b. mean (map (per_turn_diff self payoff i b) [0..<nat (repetitions self)])"
  let ?body = "\<lambda>opponent diffs_matrix.
      and_then (pair_diffs self payoff i opponent) (\<lambda>diffs.
        assign2 diffs_matrix i opponent (mean diffs))"
  let ?P = "\<lambda>j dm'. shape2 n n dm' \<and>
      (\<forall>a<n. \<forall>b<n. dm' ! a ! b = (if a = i \<and> b < j then ?D b else dm ! a ! b))"
  have init: "?P 0 dm" using sh by simp
  have step: "\<exists>s'. ?body j s = Inr s' \<and> ?P (Suc j) s'" if j: "j < n" and P: "?P j s" for j s
  proof -
    let ?s' = "s[i := (s ! i)[j := ?D j]]"
    have shs: "shape2 n n s" using P by simp
    have run: "?body j s = Inr ?s'"
      by (simp add: pair_diffs_ok[OF pay i j t] assign2_ok[OF shs i j])
    have sh': "shape2 n n ?s'" using shs by (rule shape2_update)
    have vals: "?s' ! a ! b = (if a = i \<and> b < Suc j then ?D b else dm ! a ! b)"
      if "a < n" "b < n" for a b
    proof -
      have "?s' ! a ! b = (if a = i \<and> b = j then ?D j else s ! a ! b)"
        using shs that by (intro nth_update2) (simp_all add: shape2_iff)
      moreover have "s ! a ! b = (if a = i \<and> b < j then ?D b else dm ! a ! b)"
        using P that by blast
      ultimately show ?thesis by (cases "b = j") (auto simp: less_Suc_eq)
    qed
    show ?thesis using run sh' vals by blast
  qed
  have "\<exists>s'. for_each [0..<n] ?body dm = Inr s' \<and> ?P n s'"
    using init step by (rule for_each_upt_invariant[where P = ?P])
  then obtain dm' where dm': "for_each [0..<n] ?body dm = Inr dm'" "?P n dm'" by blast
  have "\<forall>a<n. \<forall>b<n. dm' ! a ! b = (if a = i then ?D b else dm ! a ! b)"
    using dm'(2) by simp
  then show ?thesis using dm' by blast
qed

lemma payoff_diffs_matrix_ok:
  assumes pay: "shape3 (nplayers self) (nplayers self) (nat (repetitions self)) payoff"
    and t: "turns self \<noteq> 0"
  shows "\<exists>m. ResultSet_payoff_diffs_matrix self payoff = Inr m
          \<and> shape2 (nplayers self) (nplayers self) m
          \<and> (\<forall>a<nplayers self. \<forall>b<nplayers self. m ! a ! b =
                mean (map (per_turn_diff self payoff a b) [0..<nat (repetitions self)]))"
proof -
  define n where "n = nplayers self"
  let ?D = "\<lambda>a b. mean (map (per_turn_diff self payoff a b) [0..<nat (repetitions self)])"
  let ?zeros = "map (\<lambda>i. map (\<lambda>j. Num 0) [0..<n]) [0..<n]"
  let ?row = "\<lambda>player. for_each [0..<n]
      (\<lambda>opponent diffs_matrix.
         and_then (pair_diffs self payoff player opponent) (\<lambda>diffs.
           assign2 diffs_matrix player opponent (mean diffs)))"
  let ?P = "\<lambda>i dm'. shape2 n n dm' \<and>
      (\<forall>a<n. \<forall>b<n. dm' ! a ! b = (if a < i then ?D a b else Num 0))"
  have pay': "shape3 n n (nat (repetitions self)) payoff" using pay by (simp add: n_def)
  have init: "?P 0 ?zeros" by (simp add: shape2_iff)
  have step: "\<exists>s'. ?row i s = Inr s' \<and> ?P (Suc i) s'" if i: "i < n" and P: "?P i s" for i s
  proof -
    have shs: "shape2 n n s" using P by simp
    obtain s' where run: "?row i s = Inr s'" and sh': "shape2 n n s'"
      and v: "\<forall>a<n. \<forall>b<n. s' ! a ! b = (if a = i then ?D i b else s ! a ! b)"
      using diffs_row_ok[OF pay' i t shs] by blast
    have vals: "s' ! a ! b = (if a < Suc i then ?D a b else Num 0)" if "a < n" "b < n" for a b
    proof -
      have "s' ! a ! b = (if a = i then ?D i b else s ! a ! b)" using v that by blast
      moreover have "s ! a ! b = (if a < i then ?D a b else Num 0)" using P that by blast
      ultimately show ?thesis by (cases "a = i") (auto simp: less_Suc_eq)
    qed
    show ?thesis using run sh' vals by blast
  qed
  have "\<exists>s'. for_each [0..<n] ?row ?zeros = Inr s' \<and> ?P n s'"
    using init step by (rule for_each_upt_invariant[where P = ?P])
  then obtain m where m: "for_each [0..<n] ?row ?zeros = Inr m" "?P n m" by blast
  have "ResultSet_payoff_diffs_matrix self payoff = Inr m"
    using m(1) by (simp add: ResultSet_payoff_diffs_matrix_def n_def)
  moreover have "\<forall>a<n. \<forall>b<n. m ! a ! b = ?D a b" using m(2) by simp
  ultimately show ?thesis using m(2) by (simp add: n_def)
qed

lemma length_blocks:
  "length (concat (map (\<lambda>j. map (g j) [0..<c]) [0..<n])) = n * c"
  by (induction n) simp_all

lemma nth_blocks:
  assumes "j < n" "r < c"
  shows "concat (map (\<lambda>j. map (g j) [0..<c]) [0..<n]) ! (j * c + r) = g j r"
  using assms
proof (induction n)
  case 0
  then show ?case by simp
next
  case (Suc n)
  let ?front = "concat (map (\<lambda>j. map (g j) [0..<c]) [0..<n])"
  have split: "concat (map (\<lambda>j. map (g j) [0..<c]) [0..<Suc n]) = ?front @ map (g n) [0..<c]"
    by simp
  show ?case
  proof (cases "j = n")
    case True
    then show ?thesis
      using Suc.prems(2) unfolding split by (simp add: nth_append length_blocks)
  next
    case False
    then have jn: "j < n" using Suc.prems(1) by simp
    then have "Suc j * c \<le> n * c" by (intro mult_le_mono1) simp
    then have "j * c + r < n * c" using Suc.prems(2) by simp
    then show ?thesis
      using Suc.IH[OF jn Suc.prems(2)] unfolding split by (simp add: nth_append length_blocks)
  qed
qed

lemma score_reps_ok:
  assumes pay: "shape3 n n (nat (repetitions self)) payoff" and p: "p < n" and q: "q < n"
    and t: "turns self \<noteq> 0" and len: "p < length d0"
  shows "for_each [0..<nat (repetitions self)]
           (\<lambda>repetition diffs.
              and_then (payoff_diff self payoff p q repetition) (\<lambda>diff.
                append_to_row diffs p diff)) d0
         = Inr (d0[p := d0 ! p @ map (per_turn_diff self payoff p q) [0..<nat (repetitions self)]])"
proof -
  let ?f = "per_turn_diff self payoff p q"
  let ?body = "\<lambda>repetition diffs.
      and_then (payoff_diff self payoff p q repetition) (\<lambda>diff. append_to_row diffs p diff)"
  let ?P = "\<lambda>k s. s = d0[p := d0 ! p @ map ?f [0..<k]]"
  have "\<exists>s'. for_each [0..<nat (repetitions self)] ?body d0 = Inr s'
          \<and> ?P (nat (repetitions self)) s'"
  proof (rule for_each_upt_invariant[where P = ?P])
    show "?P 0 d0" by simp
    show "\<exists>s'. ?body k s = Inr s' \<and> ?P (Suc k) s'"
      if "k < nat (repetitions self)" "?P k s" for k s
      using that len by (simp add: payoff_diff_ok[OF pay p q _ t] append_to_row_def)
  qed
  then show ?thesis by auto
qed

lemma score_opponents_ok:
  assumes pay: "shape3 n n (nat (repetitions self)) payoff" and p: "p < n"
    and t: "turns self \<noteq> 0" and len: "p < length d0"
  shows "for_each [0..<n]
           (\<lambda>opponent.
              for_each [0..<nat (repetitions self)]
                (\<lambda>repetition diffs.
                   and_then (payoff_diff self payoff p opponent repetition) (\<lambda>diff.
                     append_to_row diffs p diff))) d0
         = Inr (d0[p := d0 ! p @
                  concat (map (\<lambda>j. map (per_turn_diff self payoff p j) [0..<nat (repetitions self)])
                            [0..<n])])"
proof -
  let ?blocks = "\<lambda>k. concat (map (\<lambda>j. map (per_turn_diff self payoff p j)
                                        [0..<nat (repetitions self)]) [0..<k])"
  let ?body = "\<lambda>opponent.
      for_each [0..<nat (repetitions self)]
        (\<lambda>repetition diffs.
           and_then (payoff_diff self payoff p opponent repetition) (\<lambda>diff.
             append_to_row diffs p diff))"
  let ?P = "\<lambda>k s. s = d0[p := d0 ! p @ ?blocks k]"
  have "\<exists>s'. for_each [0..<n] ?body d0 = Inr s' \<and> ?P n s'"
  proof (rule for_each_upt_invariant[where P = ?P])
    show "?P 0 d0" by simp
    show "\<exists>s'. ?body k s = Inr s' \<and> ?P (Suc k) s'" if k: "k < n" and P: "?P k s" for k s
    proof -
      have "p < length s" using P len by simp
      then have "?body k s = Inr (s[p := s ! p @ map (per_turn_diff self payoff p k)
                                                  [0..<nat (repetitions self)]])"
        by (rule score_reps_ok[OF pay p k t])
      then show ?thesis using P len by simp
    qed
  qed
  then show ?thesis by auto
qed

lemma score_diffs_ok:
  assumes pay: "shape3 (nplayers self) (nplayers self) (nat (repetitions self)) payoff"
    and t: "turns self \<noteq> 0"
  shows "ResultSet_score_diffs self payoff
         = Inr (map (diffs_row self payoff) [0..<nplayers self])"
proof -
  define n where "n = nplayers self"
  have pay': "shape3 n n (nat (repetitions self)) payoff" using pay by (simp add: n_def)
  let ?row = "\<lambda>i. concat (map (\<lambda>j. map (per_turn_diff self payoff i j)
                                      [0..<nat (repetitions self)]) [0..<n])"
  let ?body = "\<lambda>player.
      for_each [0..<n]
        (\<lambda>opponent.
           for_each [0..<nat (repetitions self)]
             (\<lambda>repetition diffs.
                and_then (payoff_diff self payoff player opponent repetition) (\<lambda>diff.
                  append_to_row diffs player diff)))"
  let ?P = "\<lambda>k s. s = map (\<lambda>i. if i < k then ?row i else []) [0..<n]"
  have "\<exists>s'. for_each [0..<n] ?body (map (\<lambda>p. []) [0..<n]) = Inr s' \<and> ?P n s'"
  proof (rule for_each_upt_invariant[where P = ?P])
    show "?P 0 (map (\<lambda>p. []) [0..<n])" by simp
    show "\<exists>s'. ?body k s = Inr s' \<and> ?P (Suc k) s'" if k: "k < n" and P: "?P k s" for k s
    proof -
      have len: "k < length s" using P k by simp
      have sk: "s ! k = []" using P k by simp
      have run: "?body k s = Inr (s[k := s ! k @ ?row k])"
        using len by (rule score_opponents_ok[OF pay' k t])
      have "s[k := s ! k @ ?row k] = map (\<lambda>i. if i < Suc k then ?row i else []) [0..<n]"
      proof (rule nth_equalityI)
        show "length (s[k := s ! k @ ?row k])
              = length (map (\<lambda>i. if i < Suc k then ?row i else []) [0..<n])"
          using P by simp
      next
        fix i assume "i < length (s[k := s ! k @ ?row k])"
        then have i: "i < n" using P by simp
        show "s[k := s ! k @ ?row k] ! i
              = map (\<lambda>i. if i < Suc k then ?row i else []) [0..<n] ! i"
        proof (cases "i = k")
          case True
          then show ?thesis using len sk k by simp
        next
          case False
          then have "s[k := s ! k @ ?row k] ! i = s ! i" by simp
          also have "\<dots> = (if i < k then ?row i else [])" using P i by simp
          finally show ?thesis using False i by (simp add: less_Suc_eq)
        qed
      qed
      then show ?thesis using run by simp
    qed
  qed
  then obtain d where d: "for_each [0..<n] ?body (map (\<lambda>p. []) [0..<n]) = Inr d" "?P n d"
    by blast
  have "d = map ?row [0..<n]" using d(2) by simp
  then show ?thesis
    using d(1) by (simp add: ResultSet_score_diffs_def diffs_row_def n_def)
qed

lemma map_of_reshaped_Some:
  assumes "map_of (reshaped self outcome' res) c = Some p"
  shows "map_of res c = Some p
         \<or> (\<exists>raw. (c, raw) \<in> set outcome' \<and> raw \<noteq> [] \<and> p = canonical self raw)"
  using assms
proof (induction outcome' arbitrary: res)
  case Nil
  then show ?case by simp
next
  case (Cons ch rest)
  obtain c' raw' where ch: "ch = (c', raw')" by (cases ch)
  let ?res = "if raw' = [] then res else AList.update c' (canonical self raw') res"
  have "map_of (reshaped self rest ?res) c = Some p" using Cons.prems ch by simp
  then consider "map_of ?res c = Some p"
    | "\<exists>raw. (c, raw) \<in> set rest \<and> raw \<noteq> [] \<and> p = canonical self raw"
    using Cons.IH[of ?res] by blast
  then show ?case
  proof cases
    case 1
    then show ?thesis
      using ch by (cases "raw' = []"; cases "c' = c") (auto simp: update_conv')
  next
    case 2
    then show ?thesis by auto
  qed
qed

lemma results_channel:
  assumes inv: "nplayers self = length (players self)"
    and run: "ResultSet_results self outcome' = Inr res"
    and ch: "map_of res c = Some p"
  shows "shape3 (nplayers self) (nplayers self) (nat (repetitions self)) p
         \<and> (nplayers self = 0 \<or> 0 < nat (repetitions self))"
proof -
  have acc: "list_all (\<lambda>channel. accepted self (snd channel)) outcome'"
    using run by (auto simp: ResultSet_results_eq[OF inv] split: if_splits)
  then have "res = reshaped self outcome' []"
    using run by (simp add: ResultSet_results_eq[OF inv])
  then obtain raw where raw: "(c, raw) \<in> set outcome'" "raw \<noteq> []" "p = canonical self raw"
    using map_of_reshaped_Some[of self outcome' "[]" c p] ch by auto
  have "accepted self raw" using acc raw(1) by (auto simp: list_all_iff)
  then have "nplayers self = 0 \<or> 0 < nat (repetitions self)"
    using raw(2) inv by (auto simp: accepted_def)
  moreover have "shape3 (nplayers self) (nplayers self) (nat (repetitions self)) p"
    using shape3_canonical[of self "nplayers self" raw] inv raw(3) by simp
  ultimately show ?thesis by simp
qed

lemma for_each_raises:
  assumes "x \<in> set xs" and "\<And>s. \<exists>e. body x s = Inl e"
  shows "\<exists>e. for_each xs body s = Inl e"
  using assms(1)
proof (induction xs arbitrary: s)
  case Nil
  then show ?case by simp
next
  case (Cons a xs)
  show ?case
  proof (cases "body a s")
    case (Inl e)
    then show ?thesis by simp
  next
    case (Inr s')
    then have "a \<noteq> x" using assms(2)[of s] by auto
    then have "x \<in> set xs" using Cons.prems by simp
    then show ?thesis using Cons.IH[of s'] Inr by simp
  qed
qed

lemma payoff_diffs_matrix_zero_turns:
  assumes t: "turns self = 0" and n: "0 < nplayers self" and r: "0 < nat (repetitions self)"
  shows "\<exists>e. ResultSet_payoff_diffs_matrix self payoff = Inl e"
  unfolding ResultSet_payoff_diffs_matrix_def
proof (rule for_each_raises[where x = 0])
  show "0 \<in> set [0..<nplayers self]" using n by simp
  show "\<exists>e. for_each [0..<nplayers self]
              (\<lambda>opponent diffs_matrix.
                 and_then (pair_diffs self payoff 0 opponent) (\<lambda>diffs.
                   assign2 diffs_matrix 0 opponent (mean diffs))) s = Inl e" for s
  proof (rule for_each_raises[where x = 0])
    show "0 \<in> set [0..<nplayers self]" using n by simp
    have "\<exists>e. pair_diffs self payoff 0 0 = Inl e"
      unfolding pair_diffs_def
    proof (rule for_each_raises[where x = 0])
      show "0 \<in> set [0..<nat (repetitions self)]" using r by simp
      show "\<exists>e. and_then (payoff_diff self payoff 0 0 0) (\<lambda>diff. Inr (s @ [diff])) = Inl e" for s
        using payoff_diff_zero_turns[OF t, of payoff 0 0 0] by auto
    qed
    then show "\<exists>e. and_then (pair_diffs self payoff 0 0) (\<lambda>diffs.
                      assign2 s 0 0 (mean diffs)) = Inl e" for s
      by auto
  qed
qed

lemma mean_upt:
  assumes "0 < n"
  shows "mean (map f [0..<n]) = Num ((\<Sum>r = 0..<n. f r) / real n)"
  using assms by (simp add: mean_def interv_sum_list_conv_sum_set_nat)

text \<open>
  Claim C3. When the payoff channel is present in the reshaped results and
  \<^verbatim>\<open>turns\<close> is positive, \<^verbatim>\<open>_payoff_diffs_matrix\<close> returns a matrix whose entry
  \<open>[i][j]\<close> is the mean over the repetitions \<open>r\<close> of
  \<open>(payoff[i][j][r] - payoff[j][i][r]) / turns\<close> (in exact arithmetic).
\<close>

theorem payoff_diffs_matrix_mean:
  assumes inv: "nplayers self = length (players self)"
    and res: "ResultSet_results self outcome' = Inr res"
    and pay: "map_of res ''payoff'' = Some payoff"
    and t: "0 < turns self"
    and i: "i < nplayers self" and j: "j < nplayers self"
  shows "\<exists>m. ResultSet_payoff_diffs_matrix self payoff = Inr m
          \<and> m ! i ! j =
              Num ((\<Sum>r = 0..<nat (repetitions self).
                      (real_of_int (payoff ! i ! j ! r) - real_of_int (payoff ! j ! i ! r))
                        / real_of_int (turns self))
                   / real (nat (repetitions self)))"
proof -
  have sh: "shape3 (nplayers self) (nplayers self) (nat (repetitions self)) payoff"
    and pos: "0 < nat (repetitions self)"
    using results_channel[OF inv res pay] i by auto
  have t': "turns self \<noteq> 0" using t by simp
  obtain m where m: "ResultSet_payoff_diffs_matrix self payoff = Inr m"
    and v: "\<forall>a<nplayers self. \<forall>b<nplayers self. m ! a ! b =
              mean (map (per_turn_diff self payoff a b) [0..<nat (repetitions self)])"
    using payoff_diffs_matrix_ok[OF sh t'] by blast
  have "m ! i ! j = mean (map (per_turn_diff self payoff i j) [0..<nat (repetitions self)])"
    using v i j by blast
  then show ?thesis using m by (simp add: mean_upt[OF pos] per_turn_diff_def)
qed

text \<open>
  Claim C4. Whenever \<^verbatim>\<open>_payoff_diffs_matrix\<close> returns a matrix for the reshaped
  payoff channel, the matrix is antisymmetric: entry \<open>[j][i]\<close> is the negation of
  entry \<open>[i][j]\<close>, and neither is \<^verbatim>\<open>nan\<close> (exact arithmetic, so the equality is
  exact; no assumption on \<^verbatim>\<open>turns\<close> is needed, since a zero \<^verbatim>\<open>turns\<close> raises).
\<close>

theorem payoff_diffs_matrix_antisymmetric:
  assumes inv: "nplayers self = length (players self)"
    and res: "ResultSet_results self outcome' = Inr res"
    and pay: "map_of res ''payoff'' = Some payoff"
    and run: "ResultSet_payoff_diffs_matrix self payoff = Inr m"
    and i: "i < nplayers self" and j: "j < nplayers self"
  shows "\<exists>x. m ! i ! j = Num x \<and> m ! j ! i = Num (- x)"
proof -
  have sh: "shape3 (nplayers self) (nplayers self) (nat (repetitions self)) payoff"
    and pos: "0 < nat (repetitions self)"
    using results_channel[OF inv res pay] i by auto
  have t: "turns self \<noteq> 0"
  proof
    assume "turns self = 0"
    then have "\<exists>e. ResultSet_payoff_diffs_matrix self payoff = Inl e"
      using i pos by (intro payoff_diffs_matrix_zero_turns) simp_all
    then show False using run by simp
  qed
  obtain m' where m': "ResultSet_payoff_diffs_matrix self payoff = Inr m'"
    and v: "\<forall>a<nplayers self. \<forall>b<nplayers self. m' ! a ! b =
              mean (map (per_turn_diff self payoff a b) [0..<nat (repetitions self)])"
    using payoff_diffs_matrix_ok[OF sh t] by blast
  have mm: "m' = m" using m' run by simp
  let ?x = "(\<Sum>r = 0..<nat (repetitions self). per_turn_diff self payoff i j r)
            / real (nat (repetitions self))"
  have ij: "m ! i ! j = Num ?x" using v i j mm by (simp add: mean_upt[OF pos])
  have "per_turn_diff self payoff j i r = - per_turn_diff self payoff i j r" for r
    by (simp add: per_turn_diff_def diff_divide_distrib)
  then have "(\<Sum>r = 0..<nat (repetitions self). per_turn_diff self payoff j i r)
             = - (\<Sum>r = 0..<nat (repetitions self). per_turn_diff self payoff i j r)"
    by (simp add: sum_negf)
  then have ji: "m ! j ! i = Num (- ?x)" using v i j mm by (simp add: mean_upt[OF pos])
  show ?thesis using ij ji by blast
qed

text \<open>
  Claim C5. When the payoff channel is present and \<^verbatim>\<open>turns\<close> is positive,
  \<^verbatim>\<open>_score_diffs\<close> returns one row per player; the row of player \<open>i\<close> has
  length \<open>N * R\<close>, holds at position \<open>j * R + r\<close> (opponent-major, repetition-minor)
  the unaggregated difference \<open>(payoff[i][j][r] - payoff[j][i][r]) / turns\<close>, and so
  holds 0 at the positions of the self-pairing \<open>j = i\<close>.
\<close>

theorem score_diffs_layout:
  assumes inv: "nplayers self = length (players self)"
    and res: "ResultSet_results self outcome' = Inr res"
    and pay: "map_of res ''payoff'' = Some payoff"
    and t: "0 < turns self"
    and i: "i < nplayers self"
  shows "\<exists>d. ResultSet_score_diffs self payoff = Inr d
          \<and> length d = nplayers self
          \<and> length (d ! i) = nplayers self * nat (repetitions self)
          \<and> (\<forall>j<nplayers self. \<forall>r<nat (repetitions self).
                d ! i ! (j * nat (repetitions self) + r) =
                  (real_of_int (payoff ! i ! j ! r) - real_of_int (payoff ! j ! i ! r))
                    / real_of_int (turns self))
          \<and> (\<forall>r<nat (repetitions self). d ! i ! (i * nat (repetitions self) + r) = 0)"
proof -
  have sh: "shape3 (nplayers self) (nplayers self) (nat (repetitions self)) payoff"
    using results_channel[OF inv res pay] by simp
  have t': "turns self \<noteq> 0" using t by simp
  let ?d = "map (diffs_row self payoff) [0..<nplayers self]"
  have run: "ResultSet_score_diffs self payoff = Inr ?d" by (rule score_diffs_ok[OF sh t'])
  have row: "?d ! i = diffs_row self payoff i" using i by simp
  have len: "length (?d ! i) = nplayers self * nat (repetitions self)"
    unfolding row diffs_row_def by (rule length_blocks)
  have cell: "?d ! i ! (j * nat (repetitions self) + r) = per_turn_diff self payoff i j r"
    if "j < nplayers self" "r < nat (repetitions self)" for j r
    unfolding row diffs_row_def using that by (rule nth_blocks)
  have self_pair: "?d ! i ! (i * nat (repetitions self) + r) = 0"
    if "r < nat (repetitions self)" for r
    using cell[OF i that] by (simp add: per_turn_diff_def)
  show ?thesis
    using run len cell self_pair by (intro exI[of _ ?d]) (simp add: per_turn_diff_def)
qed

theorem payoff_diffs_matrix_mean_witness:
  "\<exists>m. ResultSet_payoff_diffs_matrix
          \<lparr>players = [''A'', ''B''], nplayers = 2, turns = 2, repetitions = 2, outcome = []\<rparr>
          [[[0, 0], [6, 4]], [[2, 4], [0, 0]]] = Inr m
       \<and> m ! 0 ! 1 = Num 1"
proof -
  have run: "ResultSet_results
      \<lparr>players = [''A'', ''B''], nplayers = 2, turns = 2, repetitions = 2, outcome = []\<rparr>
      [(''payoff'', [[[0, 6], [2, 0]], [[0, 4], [4, 0 :: int]]])]
      = Inr [(''payoff'', [[[0, 0], [6, 4]], [[2, 4], [0, 0]]])]"
    by code_simp
  show ?thesis
    using payoff_diffs_matrix_mean[OF _ run, of "[[[0, 0], [6, 4]], [[2, 4], [0, 0]]]" 0 1]
    by (simp add: numeral_2_eq_2)
qed

theorem payoff_diffs_matrix_antisymmetric_witness:
  "\<exists>x. [[Num 0, Num 1], [Num (- 1), Num 0]] ! 0 ! 1 = Num x
       \<and> [[Num 0, Num 1], [Num (- 1), Num 0]] ! 1 ! 0 = Num (- x)"
proof -
  have run: "ResultSet_results
      \<lparr>players = [''A'', ''B''], nplayers = 2, turns = 2, repetitions = 2, outcome = []\<rparr>
      [(''payoff'', [[[0, 6], [2, 0]], [[0, 4], [4, 0 :: int]]])]
      = Inr [(''payoff'', [[[0, 0], [6, 4]], [[2, 4], [0, 0]]])]"
    by code_simp
  have diffs: "ResultSet_payoff_diffs_matrix
      \<lparr>players = [''A'', ''B''], nplayers = 2, turns = 2, repetitions = 2, outcome = []\<rparr>
      [[[0, 0], [6, 4]], [[2, 4], [0, 0]]]
      = Inr [[Num 0, Num 1], [Num (- 1), Num 0]]"
    by code_simp
  show ?thesis
    by (rule payoff_diffs_matrix_antisymmetric[OF _ run _ diffs]) simp_all
qed

theorem score_diffs_layout_witness:
  "\<exists>d. ResultSet_score_diffs
          \<lparr>players = [''A'', ''B''], nplayers = 2, turns = 2, repetitions = 2, outcome = []\<rparr>
          [[[0, 0], [6, 4]], [[2, 4], [0, 0]]] = Inr d
       \<and> length d = 2 \<and> length (d ! 0) = 4 \<and> d ! 0 ! 2 = 2 \<and> d ! 0 ! 3 = 0 \<and> d ! 0 ! 0 = 0"
proof -
  have run: "ResultSet_results
      \<lparr>players = [''A'', ''B''], nplayers = 2, turns = 2, repetitions = 2, outcome = []\<rparr>
      [(''payoff'', [[[0, 6], [2, 0]], [[0, 4], [4, 0 :: int]]])]
      = Inr [(''payoff'', [[[0, 0], [6, 4]], [[2, 4], [0, 0]]])]"
    by code_simp
  obtain d where d: "ResultSet_score_diffs
          \<lparr>players = [''A'', ''B''], nplayers = 2, turns = 2, repetitions = 2, outcome = []\<rparr>
          [[[0, 0], [6, 4]], [[2, 4], [0, 0]]] = Inr d"
      "length d = 2" "length (d ! 0) = 4"
    and cells: "\<forall>j<2. \<forall>r<2. d ! 0 ! (j * 2 + r) =
        (real_of_int ([[[0, 0], [6, 4]], [[2, 4], [0, 0]]] ! 0 ! j ! r)
         - real_of_int ([[[0, 0], [6, 4]], [[2, 4], [0, 0]]] ! j ! 0 ! r)) / 2"
    and diag: "\<forall>r<2. d ! 0 ! (0 * 2 + r) = 0"
    using score_diffs_layout[OF _ run, of "[[[0, 0], [6, 4]], [[2, 4], [0, 0]]]" 0]
    by auto
  have "d ! 0 ! (1 * 2 + 0) = 2" using cells[rule_format, of 1 0] by simp
  moreover have "d ! 0 ! (1 * 2 + 1) = 0" using cells[rule_format, of 1 1] by simp
  moreover have "d ! 0 ! (0 * 2 + 0) = 0" using diag[rule_format, of 0] by simp
  ultimately show ?thesis using d by simp
qed

section \<open>The constructor and the exporter\<close>

lemma and_then_InrD:
  assumes "and_then m f = Inr y"
  obtains x where "m = Inr x" "f x = Inr y"
  using assms by (cases m) simp_all

lemma payoff_reducer_frame:
  assumes "payoff_reducer ap s = Inr s'"
  shows "\<exists>sc ns rk rn pm sd w pdm sdf.
           s' = s\<lparr>scores := Val sc, normalised_scores := Val ns, ranking := Val rk,
                  ranked_names := Val rn, payoff_matrix := Val pm, payoff_stddevs := Val sd,
                  wins := Val w, payoff_diffs_matrix := Val pdm, score_diffs := Val sdf\<rparr>"
proof -
  from assms obtain sc ns rk rn pm sd w pdm sdf where
    "s' = s\<lparr>scores := Val sc, normalised_scores := Val ns, ranking := Val rk,
           ranked_names := Val rn, payoff_matrix := Val pm, payoff_stddevs := Val sd,
           wins := Val w, payoff_diffs_matrix := Val pdm, score_diffs := Val sdf\<rparr>"
    unfolding payoff_reducer_def
    by (elim and_then_InrD) (auto split: prod.splits elim!: and_then_InrD)
  then show ?thesis by blast
qed

lemma cooperation_reducer_frame:
  assumes "cooperation_reducer ac s = Inr s'"
  shows "\<exists>cm nc vc cr gpm gpr ej em.
           s' = s\<lparr>cooperation := Val cm, normalised_cooperation := Val nc,
                  vengeful_cooperation := Val vc, cooperating_rating := Val cr,
                  good_partner_matrix := Val gpm, good_partner_rating := Val gpr,
                  eigenjesus_rating := Val ej, eigenmoses_rating := Val em\<rparr>"
proof -
  from assms obtain cm nc vc cr gpm gpr ej em where
    "s' = s\<lparr>cooperation := Val cm, normalised_cooperation := Val nc,
           vengeful_cooperation := Val vc, cooperating_rating := Val cr,
           good_partner_matrix := Val gpm, good_partner_rating := Val gpr,
           eigenjesus_rating := Val ej, eigenmoses_rating := Val em\<rparr>"
    unfolding cooperation_reducer_def
    by (elim and_then_InrD) auto
  then show ?thesis by blast
qed

lemma init_InrD:
  assumes "ResultSet_init ap ac ps t r oc wm = Inr self"
  obtains res s1 where
    "ResultSet_results (new_tournament ps t r oc) oc = Inr res"
    "if contains_key res ''payoff''
     then payoff_reducer ap (defaults (new_tournament ps t r oc) res) = Inr s1
     else s1 = defaults (new_tournament ps t r oc) res"
    "if contains_key (results s1) ''cooperation'' \<and> wm
     then cooperation_reducer ac s1 = Inr self else self = s1"
  using assms unfolding ResultSet_init_def Let_def
  by (elim and_then_InrD) (auto split: if_splits)

lemma new_tournament_inv: "nplayers (new_tournament ps t r oc) = length (players (new_tournament ps t r oc))"
  by (simp add: new_tournament_def)

text \<open>
  Claim C2, amended. The reshaper has no check of the shape of the bundle; what it does
  follows from the indexing alone. If, with at least one player, some channel has more
  repetition matrices than \<^verbatim>\<open>repetitions\<close> or a repetition matrix without an entry
  \<open>[i][j]\<close> for some players \<open>i, j\<close>, then \<^verbatim>\<open>_results\<close> raises \<^verbatim>\<open>IndexError\<close> and
  so does the constructor, whatever the reducers are (none of them runs). Otherwise
  \<^verbatim>\<open>_results\<close> raises nothing: a channel with fewer repetition matrices than
  \<^verbatim>\<open>repetitions\<close> is accepted, its missing repetitions staying 0, and rows and
  columns beyond the players are ignored.
\<close>

theorem malformed_bundle:
  "if list_all (\<lambda>channel. accepted (new_tournament ps t r oc) (snd channel)) oc
   then ResultSet_results (new_tournament ps t r oc) oc
        = Inr (reshaped (new_tournament ps t r oc) oc [])
   else ResultSet_results (new_tournament ps t r oc) oc = Inl IndexError
        \<and> ResultSet_init ap ac ps t r oc with_morality = Inl IndexError"
  by (simp add: ResultSet_results_eq[OF new_tournament_inv] ResultSet_init_def)

theorem malformed_bundle_witness:
  "ResultSet_results (new_tournament [''Alice''] 1 1 [(''payoff'', [[[5]], [[6]]])])
     [(''payoff'', [[[5]], [[6 :: int]]])] = Inl IndexError
   \<and> ResultSet_init sample_payoff_module sample_cooperation_module
        [''Alice''] 1 1 [(''payoff'', [[[5]], [[6]]])] True = Inl IndexError"
  using malformed_bundle[of "[''Alice'']" 1 1 "[(''payoff'', [[[5]], [[6]]])]"
      sample_payoff_module sample_cooperation_module True]
  by (simp add: accepted_def new_tournament_def)

text \<open>
  Claim C7. On an object whose construction succeeded without a payoff channel in its
  results, \<^verbatim>\<open>csv()\<close> raises \<^verbatim>\<open>TypeError\<close> (from joining \<^verbatim>\<open>None\<close>) and returns
  no text.
\<close>

theorem csv_without_payoff:
  assumes init: "ResultSet_init ap ac ps t r oc with_morality = Inr self"
    and absent: "\<not> contains_key (results self) ''payoff''"
  shows "ResultSet_csv str self = Inl TypeError"
proof -
  obtain res s1 where
    s1: "if contains_key res ''payoff''
         then payoff_reducer ap (defaults (new_tournament ps t r oc) res) = Inr s1
         else s1 = defaults (new_tournament ps t r oc) res"
    and self: "if contains_key (results s1) ''cooperation'' \<and> with_morality
               then cooperation_reducer ac s1 = Inr self else self = s1"
    using init by (rule init_InrD)
  have r1: "results s1 = res"
    using s1 payoff_reducer_frame[of ap "defaults (new_tournament ps t r oc) res" s1]
    by (auto simp: defaults_def split: if_splits)
  have r2: "results self = results s1" and n2: "ranked_names self = ranked_names s1"
    using self cooperation_reducer_frame[of ac s1 self] by (auto split: if_splits)
  have "\<not> contains_key res ''payoff''" using absent r1 r2 by simp
  then have "s1 = defaults (new_tournament ps t r oc) res" using s1 by simp
  then have "ranked_names self = PyNone" using n2 by (simp add: defaults_def)
  then show ?thesis by (simp add: ResultSet_csv_def getattr_def)
qed

theorem csv_without_payoff_witness:
  "ResultSet_csv (\<lambda>x. ''0.5'')
     (defaults (new_tournament [''Alice'', ''Bob''] 2 2 [(''cooperation'', [[[2, 1], [1, 2]], [[2, 2], [0, 2]]])])
        [(''cooperation'', [[[2, 2], [1, 2]], [[1, 0], [2, 2]]])])
   = Inl TypeError"
proof -
  have run: "ResultSet_init sample_payoff_module sample_cooperation_module
      [''Alice'', ''Bob''] 2 2 [(''cooperation'', [[[2, 1], [1, 2]], [[2, 2], [0, 2]]])] False
    = Inr (defaults (new_tournament [''Alice'', ''Bob''] 2 2 [(''cooperation'', [[[2, 1], [1, 2]], [[2, 2], [0, 2]]])])
        [(''cooperation'', [[[2, 2], [1, 2]], [[1, 0], [2, 2]]])])"
    by code_simp
  show ?thesis
    by (rule csv_without_payoff[OF run]) (simp add: defaults_def contains_key_def)
qed

text \<open>
  Claim C8 at a concrete input: constructed from an empty outcome bundle, the object has
  \<^verbatim>\<open>scores\<close> and \<^verbatim>\<open>payoff_matrix\<close> equal to \<^verbatim>\<open>None\<close>, but reading
  \<^verbatim>\<open>payoff_stddevs\<close>, \<^verbatim>\<open>payoff_diffs_matrix\<close> or \<^verbatim>\<open>score_diffs\<close> raises
  \<^verbatim>\<open>AttributeError\<close>: these three attributes are assigned only inside the payoff
  branch and have no default.
\<close>

theorem payoff_absent_attributes:
  "\<exists>self. ResultSet_init ap ac [''Alice'', ''Bob''] 2 2 [] with_morality = Inr self
      \<and> getattr (scores self) = Inr None
      \<and> getattr (payoff_matrix self) = Inr None
      \<and> getattr (payoff_stddevs self) = Inl AttributeError
      \<and> getattr (payoff_diffs_matrix self) = Inl AttributeError
      \<and> getattr (score_diffs self) = Inl AttributeError"
  by (simp add: ResultSet_init_def ResultSet_results_def contains_key_def defaults_def
      getattr_def Let_def)

text \<open>
  Claim C9. If the construction with \<^verbatim>\<open>with_morality = False\<close> succeeds, the eight
  cooperation-derived attributes of the object are \<^verbatim>\<open>None\<close>, whether or not the
  cooperation channel is present; and an object constructed from the same arguments with
  \<^verbatim>\<open>with_morality = True\<close> differs from it in these eight attributes only.
\<close>

theorem morality_flag_frame:
  assumes init: "ResultSet_init ap ac ps t r oc False = Inr self"
  shows "cooperation self = PyNone \<and> normalised_cooperation self = PyNone
       \<and> vengeful_cooperation self = PyNone \<and> cooperating_rating self = PyNone
       \<and> good_partner_matrix self = PyNone \<and> good_partner_rating self = PyNone
       \<and> eigenjesus_rating self = PyNone \<and> eigenmoses_rating self = PyNone
       \<and> (\<forall>self'. ResultSet_init ap ac ps t r oc True = Inr self' \<longrightarrow>
             self'\<lparr>cooperation := PyNone, normalised_cooperation := PyNone,
                   vengeful_cooperation := PyNone, cooperating_rating := PyNone,
                   good_partner_matrix := PyNone, good_partner_rating := PyNone,
                   eigenjesus_rating := PyNone, eigenmoses_rating := PyNone\<rparr> = self)"
proof -
  let ?t = "new_tournament ps t r oc"
  obtain res s1 where
    res: "ResultSet_results ?t oc = Inr res"
    and s1: "if contains_key res ''payoff''
             then payoff_reducer ap (defaults ?t res) = Inr s1 else s1 = defaults ?t res"
    and self: "self = s1"
    using init by (rule init_InrD) simp
  have unset: "cooperation s1 = PyNone \<and> normalised_cooperation s1 = PyNone
       \<and> vengeful_cooperation s1 = PyNone \<and> cooperating_rating s1 = PyNone
       \<and> good_partner_matrix s1 = PyNone \<and> good_partner_rating s1 = PyNone
       \<and> eigenjesus_rating s1 = PyNone \<and> eigenmoses_rating s1 = PyNone"
    using s1 payoff_reducer_frame[of ap "defaults ?t res" s1]
    by (auto simp: defaults_def split: if_splits)
  have frame: "self'\<lparr>cooperation := PyNone, normalised_cooperation := PyNone,
                   vengeful_cooperation := PyNone, cooperating_rating := PyNone,
                   good_partner_matrix := PyNone, good_partner_rating := PyNone,
                   eigenjesus_rating := PyNone, eigenmoses_rating := PyNone\<rparr> = s1"
    if on: "ResultSet_init ap ac ps t r oc True = Inr self'" for self'
  proof -
    obtain res' s1' where
      res': "ResultSet_results ?t oc = Inr res'"
      and s1': "if contains_key res' ''payoff''
                then payoff_reducer ap (defaults ?t res') = Inr s1' else s1' = defaults ?t res'"
      and self': "if contains_key (results s1') ''cooperation'' \<and> True
                  then cooperation_reducer ac s1' = Inr self' else self' = s1'"
      using on by (rule init_InrD)
    have "res' = res" using res res' by simp
    then have same: "s1' = s1" using s1 s1' by (auto split: if_splits)
    show ?thesis
    proof (cases "contains_key (results s1') ''cooperation''")
      case True
      then have "cooperation_reducer ac s1 = Inr self'" using self' same by simp
      then obtain cm nc vc cr gpm gpr ej em where
        "self' = s1\<lparr>cooperation := Val cm, normalised_cooperation := Val nc,
                  vengeful_cooperation := Val vc, cooperating_rating := Val cr,
                  good_partner_matrix := Val gpm, good_partner_rating := Val gpr,
                  eigenjesus_rating := Val ej, eigenmoses_rating := Val em\<rparr>"
        using cooperation_reducer_frame by blast
      then show ?thesis using unset by simp
    next
      case False
      then have "self' = s1" using self' same by simp
      then show ?thesis using unset by simp
    qed
  qed
  show ?thesis using unset frame self by simp
qed

theorem morality_flag_frame_witness:
  "case ResultSet_init sample_payoff_module sample_cooperation_module [''Alice'', ''Bob''] 2 2
          [(''payoff'', [[[0, 6], [2, 0]], [[0, 4], [4, 0]]]),
           (''cooperation'', [[[2, 1], [1, 2]], [[2, 2], [0, 2]]])] False of
     Inl e \<Rightarrow> False
   | Inr self \<Rightarrow>
       cooperation self = PyNone \<and> eigenmoses_rating self = PyNone \<and>
       (case ResultSet_init sample_payoff_module sample_cooperation_module [''Alice'', ''Bob''] 2 2
               [(''payoff'', [[[0, 6], [2, 0]], [[0, 4], [4, 0]]]),
                (''cooperation'', [[[2, 1], [1, 2]], [[2, 2], [0, 2]]])] True of
          Inl e \<Rightarrow> False
        | Inr self' \<Rightarrow>
            cooperation self' = Val [[4, 3], [1, 4]] \<and>
            self'\<lparr>cooperation := PyNone, normalised_cooperation := PyNone,
                  vengeful_cooperation := PyNone, cooperating_rating := PyNone,
                  good_partner_matrix := PyNone, good_partner_rating := PyNone,
                  eigenjesus_rating := PyNone, eigenmoses_rating := PyNone\<rparr> = self)"
proof -
  let ?oc = "[(''payoff'', [[[0, 6], [2, 0]], [[0, 4], [4, 0]]]),
              (''cooperation'', [[[2, 1], [1, 2]], [[2, 2], [0, 2 :: int]]])]"
  let ?init = "ResultSet_init sample_payoff_module sample_cooperation_module
                 [''Alice'', ''Bob''] 2 2 ?oc"
  have "\<not> isl (?init False)" by code_simp
  then obtain self where off: "?init False = Inr self" by (cases "?init False") simp_all
  have "\<not> isl (?init True)" by code_simp
  then obtain self' where on: "?init True = Inr self'" by (cases "?init True") simp_all
  have "case ?init True of Inl e \<Rightarrow> False | Inr s \<Rightarrow> cooperation s = Val [[4, 3], [1, 4]]"
    by code_simp
  then have coop: "cooperation self' = Val [[4, 3], [1, 4]]" using on by simp
  show ?thesis using morality_flag_frame[OF off] on off coop by simp
qed

lemma comprehension_ok:
  assumes "\<And>x. x \<in> set xs \<Longrightarrow> f x = Inr (g x)"
  shows "comprehension f xs = Inr (map g xs)"
  using assms by (induction xs) simp_all

lemma ranked_scores_ok:
  assumes "ranking self = Val ranks" and "normalised_scores self = Val table"
    and "\<And>rank. rank \<in> set ranks \<Longrightarrow> rank < length table \<and> irep < length (table ! rank)"
  shows "ranked_scores self irep = Inr (map (\<lambda>rank. table ! rank ! irep) ranks)"
proof -
  have "comprehension (\<lambda>rank. index2 table rank irep) ranks
        = Inr (map (\<lambda>rank. table ! rank ! irep) ranks)"
    using assms(3) by (intro comprehension_ok) (simp add: index2_def)
  then show ?thesis using assms(1,2) by (simp add: ranked_scores_def getattr_def)
qed

lemma writerow_plain:
  assumes "\<And>field. field \<in> set row \<Longrightarrow> field \<noteq> [] \<and> list_all plain_char field"
  shows "writerow row = str_join [comma] row @ [newline]"
proof -
  have "row \<noteq> [[]]" using assms[of "[]"] by auto
  moreover have "map quote_field row = row"
    using assms by (intro map_idI) (simp add: quote_field_def)
  ultimately show ?thesis by (simp add: writerow_def)
qed

text \<open>
  Claim C6. When ranked names, ranking and normalised scores are set, the ranking has
  \<open>N\<close> entries that index rows of the score table with at least \<^verbatim>\<open>repetitions\<close>
  entries, and the stringified scores are non-empty and free of commas, double quotes and
  line breaks, \<^verbatim>\<open>csv()\<close> returns the comma-joined ranked names and a line break,
  followed by one line per repetition \<open>r\<close>, each the comma-joined strings of the \<open>N\<close>
  scores \<open>normalised_scores[ranking[k]][r]\<close>, \<open>k = 0, ..., N - 1\<close>, and a line break.
\<close>

theorem csv_layout:
  assumes names: "ranked_names self = Val names"
    and ranks: "ranking self = Val ranks"
    and table: "normalised_scores self = Val table"
    and cols: "length ranks = nplayers self"
    and bounds: "\<forall>rank\<in>set ranks.
        rank < length table \<and> nat (repetitions self) \<le> length (table ! rank)"
    and plain: "\<forall>rank\<in>set ranks. \<forall>r<nat (repetitions self).
        str (table ! rank ! r) \<noteq> [] \<and> list_all plain_char (str (table ! rank ! r))"
  shows "ResultSet_csv str self =
         Inr (str_join [comma] names @ [newline] @
              concat (map (\<lambda>r. str_join [comma]
                                  (map (\<lambda>k. str (table ! (ranks ! k) ! r)) [0..<nplayers self])
                                @ [newline])
                        [0..<nat (repetitions self)]))"
proof -
  let ?R = "nat (repetitions self)"
  let ?line = "\<lambda>r. str_join [comma] (map (\<lambda>rank. str (table ! rank ! r)) ranks) @ [newline]"
  let ?header = "str_join [comma] names @ [newline]"
  let ?body = "\<lambda>irep csv_string.
      and_then (ranked_scores self irep) (\<lambda>data. Inr (csv_string @ writerow (map str data)))"
  let ?P = "\<lambda>k out. out = ?header @ concat (map ?line [0..<k])"
  have step: "?body k out = Inr (out @ ?line k)" if k: "k < ?R" for k out
  proof -
    have "ranked_scores self k = Inr (map (\<lambda>rank. table ! rank ! k) ranks)"
      using ranks table
    proof (rule ranked_scores_ok)
      show "rank < length table \<and> k < length (table ! rank)" if "rank \<in> set ranks" for rank
        using bounds that k by fastforce
    qed
    moreover have "writerow (map str (map (\<lambda>rank. table ! rank ! k) ranks)) = ?line k"
    proof -
      have "writerow (map (\<lambda>rank. str (table ! rank ! k)) ranks)
            = str_join [comma] (map (\<lambda>rank. str (table ! rank ! k)) ranks) @ [newline]"
      proof (rule writerow_plain)
        show "field \<noteq> [] \<and> list_all plain_char field"
          if "field \<in> set (map (\<lambda>rank. str (table ! rank ! k)) ranks)" for field
          using that plain k by auto
      qed
      then show ?thesis by (simp add: comp_def)
    qed
    ultimately show ?thesis by simp
  qed
  have "\<exists>s'. for_each [0..<?R] ?body ?header = Inr s' \<and> ?P ?R s'"
  proof (rule for_each_upt_invariant[where P = ?P])
    show "?P 0 ?header" by simp
    show "\<exists>s'. ?body k s = Inr s' \<and> ?P (Suc k) s'" if "k < ?R" "?P k s" for k s
      using step[OF that(1), of s] that(2) by simp
  qed
  then have run: "for_each [0..<?R] ?body ?header = Inr (?header @ concat (map ?line [0..<?R]))"
    by auto
  have "map (\<lambda>rank. str (table ! rank ! r)) ranks
        = map (\<lambda>k. str (table ! (ranks ! k) ! r)) [0..<nplayers self]" for r
    using cols by (intro nth_equalityI) simp_all
  then show ?thesis using run names by (simp add: ResultSet_csv_def getattr_def)
qed

theorem csv_layout_witness:
  "ResultSet_csv (\<lambda>x. if x = 1 then ''1.0'' else if x = 2 then ''2.0'' else ''3.0'')
     ((defaults (new_tournament [''Alice'', ''Bob''] 2 2 []) [])
        \<lparr>normalised_scores := Val [[1, 2], [3, 2]], ranking := Val [1, 0],
         ranked_names := Val [''Bob'', ''Alice'']\<rparr>)
   = Inr (''Bob,Alice'' @ [newline] @ ''3.0,1.0'' @ [newline] @ ''2.0,2.0'' @ [newline])"
  using csv_layout[of
      "(defaults (new_tournament [''Alice'', ''Bob''] 2 2 []) [])
         \<lparr>normalised_scores := Val [[1, 2], [3, 2]], ranking := Val [1, 0],
          ranked_names := Val [''Bob'', ''Alice'']\<rparr>"
      "[''Bob'', ''Alice'']" "[1, 0]" "[[1, 2], [3, 2]]"
      "\<lambda>x. if x = 1 then ''1.0'' else if x = 2 then ''2.0'' else ''3.0''"]
  by (simp add: defaults_def new_tournament_def plain_char_def comma_def dquote_def
      newline_def carriage_return_def numeral_2_eq_2 less_Suc_eq)

end
